theory Spec2Isabelle
  imports Main "HOL-Library.Word"
begin

unbundle bit_operations_syntax

section \<open>JavaScript values used by the wrapper\<close>

text \<open>
  The wrapper \<^verbatim>\<open>dist/argon2.js\<close> marshals its arguments into the heap of the compiled
  module, calls the module and turns the result code into a returned or thrown object.
  Numbers are modelled as integers (\<^typ>\<open>int\<close>), an omitted property of the parameter
  object as \<^term>\<open>None\<close>. A JavaScript string is a list of code units; the model covers the
  code units 0 to 255 (\<^typ>\<open>char\<close>), so the \<^verbatim>\<open>length\<close> of a string is the length of the list.
\<close>

type_synonym byte = "8 word"

datatype jsval = JUndefined | JNum int | JStr string | JObj string

text \<open>Truthiness, as \<^verbatim>\<open>if (v)\<close>, \<^verbatim>\<open>!v\<close> and \<^verbatim>\<open>v || d\<close> read a value.\<close>

fun truthy :: "jsval \<Rightarrow> bool" where
  "truthy JUndefined = False"
| "truthy (JNum n) = (n \<noteq> 0)"
| "truthy (JStr s) = (s \<noteq> [])"
| "truthy (JObj d) = True"

text \<open>
  \<^verbatim>\<open>ToInt32\<close> of an argument, as compiled code reads every number it is passed: a number
  wraps to 32 bits, undefined and an object or function give 0. (The wrapper never passes a
  string for a number.)
\<close>

fun to_int32 :: "jsval \<Rightarrow> int" where
  "to_int32 (JNum n) = (n + 2 ^ 31) mod 2 ^ 32 - 2 ^ 31"
| "to_int32 v = 0"

text \<open>\<^verbatim>\<open>v || d\<close> for an optional number \<open>v\<close>: an omitted and a zero value both give \<open>d\<close>.\<close>

definition or_default :: "int option \<Rightarrow> int \<Rightarrow> int" where
  "or_default v d = (case v of None \<Rightarrow> d | Some n \<Rightarrow> if n = 0 then d else n)"

text \<open>A password, salt or encoded hash: a string, or a \<^verbatim>\<open>Uint8Array\<close> / \<^verbatim>\<open>Array\<close> of bytes.\<close>

datatype str_or_arr = Str string | Arr "byte list"

fun js_length :: "str_or_arr \<Rightarrow> int" where
  "js_length (Str s) = int (length s)"
| "js_length (Arr a) = int (length a)"

text \<open>Errors of the language itself, which no handler of the wrapper catches.\<close>

datatype js_error = RangeError | TypeError | ReferenceError

text \<open>
  \<^verbatim>\<open>new Array(n)\<close> for a number \<open>n\<close>: an array of \<open>n\<close> holes, which \<^verbatim>\<open>allocate\<close> stores as
  zero bytes; a RangeError unless \<open>n\<close> is an array length.
\<close>

definition new_Array :: "int \<Rightarrow> js_error + byte list" where
  "new_Array n = (if 0 \<le> n \<and> n < 2 ^ 32 then Inr (replicate (nat n) 0) else Inl RangeError)"

text \<open>The enum \<^verbatim>\<open>ArgonType\<close>.\<close>

definition Argon2d :: int where "Argon2d = 0"
definition Argon2i :: int where "Argon2i = 1"
definition Argon2id :: int where "Argon2id = 2"

text \<open>
  \<^verbatim>\<open>ArgonType[key]\<close>: the three own properties; a property inherited from
  \<^verbatim>\<open>Object.prototype\<close> is an object or a function; anything else is undefined.
\<close>

definition object_prototype_keys :: "string list" where
  "object_prototype_keys =
     [''constructor'', ''toString'', ''toLocaleString'', ''valueOf'', ''hasOwnProperty'',
      ''isPrototypeOf'', ''propertyIsEnumerable'', ''__proto__'', ''__defineGetter__'',
      ''__defineSetter__'', ''__lookupGetter__'', ''__lookupSetter__'']"

definition ArgonType :: "string \<Rightarrow> jsval" where
  "ArgonType key =
     (if key = ''Argon2d'' then JNum Argon2d
      else if key = ''Argon2i'' then JNum Argon2i
      else if key = ''Argon2id'' then JNum Argon2id
      else if key \<in> set object_prototype_keys then JObj key
      else JUndefined)"

text \<open>\<^verbatim>\<open>s.split('$')\<close> and \<^verbatim>\<open>s.replace('a', 'A')\<close> (the first occurrence only).\<close>

fun split_on :: "char \<Rightarrow> string \<Rightarrow> string list" where
  "split_on c [] = [[]]"
| "split_on c (x # xs) =
     (if x = c then [] # split_on c xs
      else (case split_on c xs of [] \<Rightarrow> [[x]] | f # fs \<Rightarrow> (x # f) # fs))"

fun replace_first :: "char \<Rightarrow> char \<Rightarrow> string \<Rightarrow> string" where
  "replace_first a b [] = []"
| "replace_first a b (x # xs) = (if x = a then b # xs else x # replace_first a b xs)"

text \<open>\<^verbatim>\<open>arr[1]\<close>: the second element, or undefined.\<close>

fun index1 :: "string list \<Rightarrow> string option" where
  "index1 (x # y # ys) = Some y"
| "index1 xs = None"

section \<open>The heap of the compiled module\<close>

text \<open>
  The compiled module \<^verbatim>\<open>argon2-asm.min\<close> is not part of the sources. The wrapper reaches
  its heap through \<^verbatim>\<open>Module.HEAP8\<close>, \<^verbatim>\<open>Module.allocate\<close> and \<^verbatim>\<open>Module._free\<close>.
\<close>

text \<open>
  Modelled from the spec: the byte-buffer allocation and release facility of section 6
  (\<^verbatim>\<open>Module.allocate\<close>, \<^verbatim>\<open>Module._free\<close> and the memory \<^verbatim>\<open>Module.HEAP8\<close>, which are in the
  compiled module). The heap is a flat byte memory \<open>HEAP8\<close>; \<open>live\<close> lists the blocks handed
  out and not yet freed, as (pointer, size). A new block is cut at the top \<open>brk\<close> of the heap,
  so it overlaps no earlier block; freeing a block takes it out of \<open>live\<close>.
\<close>

record heap =
  HEAP8 :: "nat \<Rightarrow> byte"
  live :: "(nat \<times> nat) list"
  brk :: nat

definition write_bytes :: "(nat \<Rightarrow> byte) \<Rightarrow> nat \<Rightarrow> byte list \<Rightarrow> nat \<Rightarrow> byte" where
  "write_bytes m p bs = (\<lambda>a. if p \<le> a \<and> a < p + length bs then bs ! (a - p) else m a)"

definition read_bytes :: "heap \<Rightarrow> nat \<Rightarrow> nat \<Rightarrow> byte list" where
  "read_bytes h p n = map (HEAP8 h) [p ..< p + n]"

definition allocate :: "heap \<Rightarrow> byte list \<Rightarrow> nat \<times> heap" where
  "allocate h slab =
     (let ret = brk h
      in (ret, h\<lparr>HEAP8 := write_bytes (HEAP8 h) ret slab,
                 live := (ret, length slab) # live h,
                 brk := ret + max 1 (length slab)\<rparr>))"

definition free :: "heap \<Rightarrow> nat \<Rightarrow> heap" where
  "free h p = h\<lparr>live := filter (\<lambda>(q, n). q \<noteq> p) (live h)\<rparr>"

text \<open>
  What the wrapper calls in the module. A call returns or throws (\<open>Threw\<close>).
  \<^item> \<open>intArrayFromString\<close>: the bytes of a string, as the module's runtime marshals it.
  \<^item> \<open>Pointer_stringify\<close>: the string read from the memory that starts at a pointer.
  \<^item> \<open>argon2_hash\<close>: \<^verbatim>\<open>_argon2_hash(t_cost, m_cost, parallelism, pwd, pwdlen, salt, saltlen,
    hash, hashlen, encoded, encodedlen, type, version)\<close>. It reads \<open>pwdlen\<close> bytes at \<open>pwd\<close> and
    \<open>saltlen\<close> bytes at \<open>salt\<close>, and returns the result code with the bytes it writes at
    \<open>hash\<close> and at \<open>encoded\<close>.
  \<^item> \<open>argon2_verify\<close>: \<^verbatim>\<open>_argon2_verify(encoded, pwd, pwdlen, type)\<close>, reading the memory
    that starts at \<open>encoded\<close> and \<open>pwdlen\<close> bytes at \<open>pwd\<close>.
  \<^item> \<open>argon2_error_message\<close>: \<^verbatim>\<open>Pointer_stringify(_argon2_error_message(res))\<close>.
\<close>

datatype 'a call = Ret 'a | Threw jsval

record asm_module =
  intArrayFromString :: "string \<Rightarrow> byte list"
  Pointer_stringify :: "byte list \<Rightarrow> string"
  argon2_hash :: "int \<Rightarrow> int \<Rightarrow> int \<Rightarrow> byte list \<Rightarrow> byte list \<Rightarrow> int \<Rightarrow> int \<Rightarrow> int \<Rightarrow> int
                    \<Rightarrow> (int \<times> byte list \<times> byte list) call"
  argon2_verify :: "byte list \<Rightarrow> byte list \<Rightarrow> jsval \<Rightarrow> int call"
  argon2_error_message :: "int option \<Rightarrow> string call"

section \<open>The wrapper: hash\<close>

text \<open>\<^verbatim>\<open>allocateArray\<close>: an array is stored as it is, a string through \<^verbatim>\<open>intArrayFromString\<close>.\<close>

definition allocateArray :: "asm_module \<Rightarrow> heap \<Rightarrow> str_or_arr \<Rightarrow> nat \<times> heap" where
  "allocateArray M h strOrArr =
     (let arr = (case strOrArr of Arr a \<Rightarrow> a | Str s \<Rightarrow> intArrayFromString M s)
      in allocate h arr)"

text \<open>The parameter object of \<^verbatim>\<open>argon2Hash\<close>.\<close>

record hash_params =
  pass :: str_or_arr
  salt :: str_or_arr
  time :: "int option"
  mem :: "int option"
  hashLen :: "int option"
  parallelism :: "int option"
  type :: "int option"

text \<open>
  The local variables of \<^verbatim>\<open>argon2Hash\<close> before the call (lines 57 to 69); \<open>l_pwd\<close>,
  \<open>l_salt\<close>, \<open>l_hash\<close> and \<open>l_encoded\<close> are the four pointers.
\<close>

record hash_locals =
  l_tCost :: int
  l_mCost :: int
  l_parallelism :: int
  l_pwd :: nat
  l_pwdlen :: int
  l_salt :: nat
  l_saltlen :: int
  l_hash :: nat
  l_hashlen :: int
  l_encoded :: nat
  l_encodedlen :: int
  l_argon2Type :: int
  l_version :: int

text \<open>
  Line 68, \<^verbatim>\<open>params.type || argon2.ArgonType.Argon2d\<close>. The file binds no identifier
  \<^verbatim>\<open>argon2\<close>: the enum is the local variable \<^verbatim>\<open>ArgonType\<close>, and the exports are assigned to
  \<^verbatim>\<open>module.exports\<close>. Evaluating the right operand therefore throws a ReferenceError, and
  \<^verbatim>\<open>||\<close> evaluates it exactly when \<^verbatim>\<open>params.type\<close> is omitted or 0. The error is thrown after
  the four allocations and outside every \<^verbatim>\<open>try\<close>.
\<close>

definition argon2_ArgonType_Argon2d :: "js_error + int" where
  "argon2_ArgonType_Argon2d = Inl ReferenceError"

definition or_else :: "int option \<Rightarrow> js_error + int \<Rightarrow> js_error + int" where
  "or_else v d = (case v of None \<Rightarrow> d | Some n \<Rightarrow> if n = 0 then d else Inr n)"

definition hash_setup :: "asm_module \<Rightarrow> heap \<Rightarrow> hash_params \<Rightarrow> (js_error + hash_locals) \<times> heap" where
  "hash_setup M h0 params =
     (let tCost = or_default (time params) 1;
          mCost = or_default (mem params) 1024;
          parallelism_v = or_default (parallelism params) 1;
          (pwd, h1) = allocateArray M h0 (pass params);
          pwdlen = js_length (pass params);
          (salt_v, h2) = allocateArray M h1 (salt params);
          saltlen = js_length (salt params)
      in case new_Array (or_default (hashLen params) 24) of
           Inl e \<Rightarrow> (Inl e, h2)
         | Inr holes \<Rightarrow>
             (let (hash, h3) = allocate h2 holes;
                  hashlen = or_default (hashLen params) 24;
                  (encoded, h4) = allocate h3 (replicate 512 0);
                  encodedlen = 512
              in case or_else (type params) argon2_ArgonType_Argon2d of
                   Inl e \<Rightarrow> (Inl e, h4)
                 | Inr argon2Type \<Rightarrow>
                     (let version = 0x13
                      in (Inr \<lparr>l_tCost = tCost, l_mCost = mCost, l_parallelism = parallelism_v,
                                l_pwd = pwd, l_pwdlen = pwdlen, l_salt = salt_v,
                                l_saltlen = saltlen, l_hash = hash, l_hashlen = hashlen,
                                l_encoded = encoded, l_encodedlen = encodedlen,
                                l_argon2Type = argon2Type, l_version = version\<rparr>,
                          h4))))"

text \<open>
  The call in its \<^verbatim>\<open>try\<close> (lines 71 to 76): \<open>res\<close> stays undefined and \<open>err\<close> is the thrown
  value when the module throws. The module writes within the two output buffers.
\<close>

definition hash_core :: "asm_module \<Rightarrow> heap \<Rightarrow> hash_locals \<Rightarrow> (int \<times> byte list \<times> byte list) call" where
  "hash_core M h l =
     argon2_hash M (l_tCost l) (l_mCost l) (l_parallelism l)
       (read_bytes h (l_pwd l) (nat (l_pwdlen l))) (read_bytes h (l_salt l) (nat (l_saltlen l)))
       (l_hashlen l) (l_encodedlen l) (l_argon2Type l) (l_version l)"

definition hash_call :: "asm_module \<Rightarrow> heap \<Rightarrow> hash_locals \<Rightarrow> int option \<times> jsval \<times> heap" where
  "hash_call M h l =
     (case hash_core M h l of
        Ret (res, hash_out, encoded_out) \<Rightarrow>
          (Some res, JUndefined,
           h\<lparr>HEAP8 := write_bytes
                (write_bytes (HEAP8 h) (l_hash l) (take (nat (l_hashlen l)) hash_out))
                (l_encoded l) (take (nat (l_encodedlen l)) encoded_out)\<rparr>)
      | Threw e \<Rightarrow> (None, e, h))"

text \<open>\<^verbatim>\<open>n.toString(16)\<close> for a non-negative integer, and \<^verbatim>\<open>s.slice(-2)\<close>.\<close>

definition hex_digit :: "nat \<Rightarrow> char" where
  "hex_digit d = ''0123456789abcdef'' ! d"

function toString16 :: "nat \<Rightarrow> string" where
  "toString16 n = (if n < 16 then [hex_digit n] else toString16 (n div 16) @ [hex_digit (n mod 16)])"
  by pat_completeness auto
termination
  by (relation "measure id") auto

definition slice_last2 :: "string \<Rightarrow> string" where
  "slice_last2 s = drop (length s - 2) s"

text \<open>
  The loop of lines 81 to 85. \<^verbatim>\<open>HEAP8\<close> is an \<^verbatim>\<open>Int8Array\<close>, so \<open>byte\<close> is signed; the
  \<^verbatim>\<open>Uint8Array\<close> \<open>hashArr\<close> stores it modulo 256.
\<close>

function hash_loop :: "heap \<Rightarrow> nat \<Rightarrow> int \<Rightarrow> nat \<Rightarrow> byte list \<times> string \<Rightarrow> byte list \<times> string" where
  "hash_loop h hash hashlen i (hashArr, hashStr) =
     (if int i < hashlen
      then (let byte = sint (HEAP8 h (hash + i))
            in hash_loop h hash hashlen (Suc i)
                 (hashArr[i := of_int byte],
                  hashStr @ slice_last2 (''0'' @ toString16 (nat (0xFF AND byte)))))
      else (hashArr, hashStr))"
  by pat_completeness auto
termination
  by (relation "measure (\<lambda>(h, hash, hashlen, i, acc). nat (hashlen - int i))") auto

text \<open>
  What \<^verbatim>\<open>argon2Hash\<close> returns or throws: \<^verbatim>\<open>{ hash, hashHex, encoded }\<close> or
  \<^verbatim>\<open>{ message, code }\<close>. An outcome is a returned value, a thrown value, or an error of the
  language that leaves the function uncaught.
\<close>

datatype hash_result = HashResult "byte list" string string | HashError jsval "int option"

datatype 'a outcome = Returned 'a | Thrown 'a | Uncaught js_error

text \<open>Lines 77 to 96: the result object, and \<open>err\<close> as the final test reads it.\<close>

definition hash_result_of :: "asm_module \<Rightarrow> heap \<Rightarrow> hash_locals \<Rightarrow> int option \<Rightarrow> jsval \<Rightarrow> hash_result \<times> jsval" where
  "hash_result_of M h l res err =
     (if res = Some 0 \<and> \<not> truthy err
      then (let (hashArr, hashStr) =
                  hash_loop h (l_hash l) (l_hashlen l) 0 (replicate (nat (l_hashlen l)) 0, []);
                encodedStr = Pointer_stringify M (read_bytes h (l_encoded l) (brk h - l_encoded l))
            in (HashResult hashArr hashStr encodedStr, err))
      else (let err' = (if \<not> truthy err
                        then (case argon2_error_message M res of Ret s \<Rightarrow> JStr s | Threw e \<Rightarrow> err)
                        else err)
            in (HashError err' res, err')))"

text \<open>Lines 97 to 102: the four buffers are freed.\<close>

definition hash_free :: "heap \<Rightarrow> hash_locals \<Rightarrow> heap" where
  "hash_free h l = free (free (free (free h (l_pwd l)) (l_salt l)) (l_hash l)) (l_encoded l)"

definition argon2Hash :: "asm_module \<Rightarrow> heap \<Rightarrow> hash_params \<Rightarrow> hash_result outcome \<times> heap" where
  "argon2Hash M h0 params =
     (case hash_setup M h0 params of
        (Inl e, h) \<Rightarrow> (Uncaught e, h)
      | (Inr l, h4) \<Rightarrow>
          (let (res, err, h5) = hash_call M h4 l;
               (result, err') = hash_result_of M h5 l res err;
               h6 = hash_free h5 l
           in (if truthy err' then Thrown result else Returned result, h6)))"

section \<open>The wrapper: verify\<close>

record verify_params =
  vpass :: str_or_arr
  vencoded :: str_or_arr
  vtype :: "int option"

text \<open>
  Lines 130 to 137: the type handed to the module. \<^verbatim>\<open>split\<close> is a method of strings only,
  so the call on an array is a TypeError.
\<close>

definition verify_type :: "verify_params \<Rightarrow> js_error + jsval" where
  "verify_type params =
     (case vtype params of
        Some t \<Rightarrow> Inr (JNum t)
      | None \<Rightarrow>
          (case vencoded params of
             Arr a \<Rightarrow> Inl TypeError
           | Str s \<Rightarrow>
               (case index1 (split_on CHR ''$'' s) of
                  None \<Rightarrow> Inr JUndefined
                | Some typeStr \<Rightarrow>
                    if typeStr \<noteq> []
                    then (let typeStr' = replace_first CHR ''a'' CHR ''A'' typeStr;
                              v = ArgonType typeStr'
                          in Inr (if truthy v then v else JNum Argon2d))
                    else Inr JUndefined)))"

datatype verify_result = VerifyUndefined | VerifyError jsval "int option"

definition verify_core :: "asm_module \<Rightarrow> heap \<Rightarrow> nat \<Rightarrow> nat \<Rightarrow> int \<Rightarrow> jsval \<Rightarrow> int call" where
  "verify_core M h enc pwd pwdlen argon2Type =
     argon2_verify M (read_bytes h enc (brk h - enc)) (read_bytes h pwd (nat pwdlen)) argon2Type"

definition verify_result_of :: "asm_module \<Rightarrow> int option \<Rightarrow> jsval \<Rightarrow> verify_result \<times> jsval" where
  "verify_result_of M res err =
     (if (res \<noteq> None \<and> res \<noteq> Some 0) \<or> truthy err
      then (let err' = (if \<not> truthy err
                        then (case argon2_error_message M res of Ret s \<Rightarrow> JStr s | Threw e \<Rightarrow> err)
                        else err)
            in (VerifyError err' res, err'))
      else (VerifyUndefined, err))"

definition argon2Verify :: "asm_module \<Rightarrow> heap \<Rightarrow> verify_params \<Rightarrow> verify_result outcome \<times> heap" where
  "argon2Verify M h0 params =
     (let (pwd, h1) = allocateArray M h0 (vpass params);
          pwdlen = js_length (vpass params);
          (enc, h2) = allocateArray M h1 (vencoded params)
      in case verify_type params of
           Inl e \<Rightarrow> (Uncaught e, h2)
         | Inr argon2Type \<Rightarrow>
             (let (res, err) = (case verify_core M h2 enc pwd pwdlen argon2Type of
                                  Ret r \<Rightarrow> (Some r, JUndefined)
                                | Threw e \<Rightarrow> (None, e));
                  (result, err') = verify_result_of M res err;
                  h3 = free (free h2 pwd) enc
              in (if truthy err' then Thrown result else Returned result, h3)))"

section \<open>The compiled module, modelled from the spec\<close>

text \<open>
  The hashing core (\<^verbatim>\<open>argon2-asm.min\<close>) is compiled code outside the sources. What follows
  models it from the specification: the parameter validation and the encoded string of
  sections 3 and 4.5, the two entry points of section 6 and the error taxonomy of section 7.
  The memory-hard computation itself (sections 4.1 to 4.4) is a parameter: any function from
  the variant, the costs, the password and the salt to the bytes of the digest.
\<close>

subsection \<open>String marshalling\<close>

text \<open>
  Modelled from the spec: the string and byte marshalling that section 1 leaves to the module
  boundary (\<^verbatim>\<open>Module.intArrayFromString\<close> and \<^verbatim>\<open>Module.Pointer_stringify\<close> are not in the
  sources). A string is stored as its UTF-8 bytes and a terminating zero: a code unit below
  128 is one byte, a code unit from 128 to 255 is two. A string is read back up to the first
  zero byte, one character a byte (the module writes ASCII only).
\<close>

definition utf8_unit :: "char \<Rightarrow> byte list" where
  "utf8_unit c =
     (let u = of_char c :: nat
      in if u < 128 then [of_nat u] else [of_nat (192 + u div 64), of_nat (128 + u mod 64)])"

definition stringToUTF8 :: "string \<Rightarrow> byte list" where
  "stringToUTF8 s = concat (map utf8_unit s) @ [0]"

definition c_string :: "byte list \<Rightarrow> byte list" where
  "c_string bs = takeWhile (\<lambda>b. b \<noteq> 0) bs"

definition stringify :: "byte list \<Rightarrow> string" where
  "stringify bs = map (\<lambda>b. char_of (unat b)) (c_string bs)"

definition ascii_bytes :: "string \<Rightarrow> byte list" where
  "ascii_bytes s = map (\<lambda>c. of_nat (of_char c)) s"

subsection \<open>Decimal numbers and base64 without padding\<close>

text \<open>
  Modelled from the spec: the decimal numbers and the base64 without padding of the encoded
  string of section 3, which the compiled module writes and reads.
\<close>

definition digit_char :: "nat \<Rightarrow> char" where
  "digit_char d = ''0123456789'' ! d"

function show_nat :: "nat \<Rightarrow> string" where
  "show_nat n = (if n < 10 then [digit_char n] else show_nat (n div 10) @ [digit_char (n mod 10)])"
  by pat_completeness auto
termination
  by (relation "measure id") auto

fun index_of :: "'a \<Rightarrow> 'a list \<Rightarrow> nat option" where
  "index_of x [] = None"
| "index_of x (y # ys) = (if x = y then Some 0 else map_option Suc (index_of x ys))"

fun parse_digits :: "nat \<Rightarrow> string \<Rightarrow> nat option" where
  "parse_digits acc [] = Some acc"
| "parse_digits acc (c # cs) =
     (case index_of c ''0123456789'' of
        None \<Rightarrow> None
      | Some d \<Rightarrow> parse_digits (acc * 10 + d) cs)"

definition parse_nat :: "string \<Rightarrow> nat option" where
  "parse_nat s = (if s = [] then None else parse_digits 0 s)"

definition b64_alphabet :: string where
  "b64_alphabet = ''ABCDEFGHIJKLMNOPQRSTUVWXYZabcdefghijklmnopqrstuvwxyz0123456789+/''"

definition b64_char :: "nat \<Rightarrow> char" where
  "b64_char v = b64_alphabet ! v"

definition b64_val :: "char \<Rightarrow> nat option" where
  "b64_val c = index_of c b64_alphabet"

fun b64_encode :: "byte list \<Rightarrow> string" where
  "b64_encode [] = []"
| "b64_encode [a] =
     (let x = unat a in [b64_char (x div 4), b64_char (x mod 4 * 16)])"
| "b64_encode [a, b] =
     (let x = unat a; y = unat b
      in [b64_char (x div 4), b64_char (x mod 4 * 16 + y div 16), b64_char (y mod 16 * 4)])"
| "b64_encode (a # b # c # rest) =
     (let x = unat a; y = unat b; z = unat c
      in b64_char (x div 4) # b64_char (x mod 4 * 16 + y div 16)
         # b64_char (y mod 16 * 4 + z div 64) # b64_char (z mod 64) # b64_encode rest)"

fun b64_decode :: "string \<Rightarrow> byte list option" where
  "b64_decode [] = Some []"
| "b64_decode [c1] = None"
| "b64_decode [c1, c2] =
     (case (b64_val c1, b64_val c2) of
        (Some v1, Some v2) \<Rightarrow>
          if v2 mod 16 = 0 then Some [of_nat (v1 * 4 + v2 div 16)] else None
      | _ \<Rightarrow> None)"
| "b64_decode [c1, c2, c3] =
     (case (b64_val c1, b64_val c2, b64_val c3) of
        (Some v1, Some v2, Some v3) \<Rightarrow>
          if v3 mod 4 = 0
          then Some [of_nat (v1 * 4 + v2 div 16), of_nat (v2 mod 16 * 16 + v3 div 4)]
          else None
      | _ \<Rightarrow> None)"
| "b64_decode (c1 # c2 # c3 # c4 # rest) =
     (case (b64_val c1, b64_val c2, b64_val c3, b64_val c4) of
        (Some v1, Some v2, Some v3, Some v4) \<Rightarrow>
          (case b64_decode rest of
             None \<Rightarrow> None
           | Some bs \<Rightarrow>
               Some (of_nat (v1 * 4 + v2 div 16) # of_nat (v2 mod 16 * 16 + v3 div 4)
                     # of_nat (v3 mod 4 * 64 + v4) # bs))
      | _ \<Rightarrow> None)"

subsection \<open>Parameters, errors and the encoded string\<close>

text \<open>
  Modelled from the spec: the three variants of section 2, their numbers in the enum of the
  wrapper and their tags in the encoded string, as the compiled module reads them.
\<close>

datatype variant = VArgon2d | VArgon2i | VArgon2id

definition variant_of_int :: "int \<Rightarrow> variant option" where
  "variant_of_int n =
     (if n = 0 then Some VArgon2d else if n = 1 then Some VArgon2i
      else if n = 2 then Some VArgon2id else None)"

fun variant_tag :: "variant \<Rightarrow> string" where
  "variant_tag VArgon2d = ''argon2d''"
| "variant_tag VArgon2i = ''argon2i''"
| "variant_tag VArgon2id = ''argon2id''"

definition tag_variant :: "string \<Rightarrow> variant option" where
  "tag_variant t =
     (if t = ''argon2d'' then Some VArgon2d else if t = ''argon2i'' then Some VArgon2i
      else if t = ''argon2id'' then Some VArgon2id else None)"

text \<open>
  Modelled from the spec: the error taxonomy of section 7. A ParameterError has a subkind for
  each violated bound; \<open>IncorrectType\<close> is the one for a number that names no variant of the
  enum, \<open>EncodingFail\<close> the one for an encoded string longer than the buffer it is written
  to. The spec gives no numbers for the result codes; the model takes those of the Argon2
  reference header and uses only that they are not zero and differ from each other.
\<close>

datatype core_error =
    OutputTooShort | TimeTooSmall | MemoryTooLittle | MemoryTooMuch | LanesTooFew | LanesTooMany
  | IncorrectType | EncodingFail | AllocationError | ParseError | VerificationMismatch


fun error_code :: "core_error \<Rightarrow> int" where
  "error_code OutputTooShort = - 2"
| "error_code TimeTooSmall = - 12"
| "error_code MemoryTooLittle = - 14"
| "error_code MemoryTooMuch = - 15"
| "error_code LanesTooFew = - 16"
| "error_code LanesTooMany = - 17"
| "error_code AllocationError = - 22"
| "error_code IncorrectType = - 26"
| "error_code EncodingFail = - 31"
| "error_code ParseError = - 32"
| "error_code VerificationMismatch = - 35"

definition all_core_errors :: "core_error list" where
  "all_core_errors =
     [OutputTooShort, TimeTooSmall, MemoryTooLittle, MemoryTooMuch, LanesTooFew, LanesTooMany,
      IncorrectType, EncodingFail, AllocationError, ParseError, VerificationMismatch]"

fun error_text :: "core_error \<Rightarrow> string" where
  "error_text OutputTooShort = ''Output is too short''"
| "error_text TimeTooSmall = ''Time cost is too small''"
| "error_text MemoryTooLittle = ''Memory cost is too small''"
| "error_text MemoryTooMuch = ''Memory cost is too large''"
| "error_text LanesTooFew = ''Too few lanes''"
| "error_text LanesTooMany = ''Too many lanes''"
| "error_text AllocationError = ''Memory allocation error''"
| "error_text IncorrectType = ''There is no such version of Argon2''"
| "error_text EncodingFail = ''Encoding failed''"
| "error_text ParseError = ''Decoding failed''"
| "error_text VerificationMismatch = ''The password does not match the supplied hash''"

text \<open>
  Modelled from the spec: the part of the compiled module that the spec leaves to the
  implementation: the digest function (the
  memory-hard computation, giving the byte at each index of the output), the largest memory
  cost it accepts and the largest it can allocate.
\<close>

record core_impl =
  digest_fn :: "variant \<Rightarrow> nat \<Rightarrow> nat \<Rightarrow> nat \<Rightarrow> byte list \<Rightarrow> byte list \<Rightarrow> nat \<Rightarrow> nat \<Rightarrow> byte"
  mem_max :: int
  mem_avail :: int

text \<open>
  Modelled from the spec: the validation of section 4.5, which is in the compiled module.
  Time cost at least 1, memory cost from 8 times the
  parallelism to the implementation's maximum, parallelism from 1 to \<open>2^24 - 1\<close>, output length
  at least 4; a distinct code for each violated constraint.
\<close>

definition validate :: "core_impl \<Rightarrow> int \<Rightarrow> int \<Rightarrow> int \<Rightarrow> int \<Rightarrow> int \<Rightarrow> core_error option" where
  "validate I t_cost m_cost lanes outlen ty =
     (if outlen < 4 then Some OutputTooShort
      else if lanes < 1 then Some LanesTooFew
      else if lanes > 2 ^ 24 - 1 then Some LanesTooMany
      else if m_cost < 8 * lanes then Some MemoryTooLittle
      else if m_cost > mem_max I then Some MemoryTooMuch
      else if t_cost < 1 then Some TimeTooSmall
      else if variant_of_int ty = None then Some IncorrectType
      else None)"

text \<open>
  Modelled from the spec: the encoding layer of sections 3 and 4.5, which is in the compiled
  module. The encoded string
  \<^verbatim>\<open>$argon2{d,i,id}$v=19$m=...,t=...,p=...$<salt>$<hash>\<close>, salt and digest in base64
  without padding, and its parser, which rejects a wrong field count, invalid base64 and an
  unknown variant tag.
\<close>

definition encode_string :: "variant \<Rightarrow> nat \<Rightarrow> nat \<Rightarrow> nat \<Rightarrow> nat \<Rightarrow> byte list \<Rightarrow> byte list \<Rightarrow> string" where
  "encode_string v ver m t p salt_bytes digest =
     ''$'' @ variant_tag v @ ''$v='' @ show_nat ver
     @ ''$m='' @ show_nat m @ '',t='' @ show_nat t @ '',p='' @ show_nat p
     @ ''$'' @ b64_encode salt_bytes @ ''$'' @ b64_encode digest"

definition strip_prefix :: "string \<Rightarrow> string \<Rightarrow> string option" where
  "strip_prefix pre s = (if take (length pre) s = pre then Some (drop (length pre) s) else None)"

definition parse_field :: "string \<Rightarrow> string \<Rightarrow> nat option" where
  "parse_field pre s = (case strip_prefix pre s of None \<Rightarrow> None | Some r \<Rightarrow> parse_nat r)"

definition parse_costs :: "string \<Rightarrow> (nat \<times> nat \<times> nat) option" where
  "parse_costs s =
     (case split_on CHR '','' s of
        [mf, tf, pf] \<Rightarrow>
          (case (parse_field ''m='' mf, parse_field ''t='' tf, parse_field ''p='' pf) of
             (Some m, Some t, Some p) \<Rightarrow> Some (m, t, p)
           | _ \<Rightarrow> None)
      | _ \<Rightarrow> None)"

record decoded =
  d_variant :: variant
  d_m :: nat
  d_t :: nat
  d_p :: nat
  d_salt :: "byte list"
  d_digest :: "byte list"

definition decode_string :: "string \<Rightarrow> decoded option" where
  "decode_string s =
     (case split_on CHR ''$'' s of
        [e, tag, vf, cf, sf, hf] \<Rightarrow>
          (if e \<noteq> [] then None
           else (case (tag_variant tag, parse_field ''v='' vf, parse_costs cf,
                       b64_decode sf, b64_decode hf) of
                   (Some v, Some ver, Some (m, t, p), Some sb, Some hb) \<Rightarrow>
                     if ver = 19
                     then Some \<lparr>d_variant = v, d_m = m, d_t = t, d_p = p,
                                d_salt = sb, d_digest = hb\<rparr>
                     else None
                 | _ \<Rightarrow> None))
      | _ \<Rightarrow> None)"

subsection \<open>The two entry points\<close>

text \<open>
  Modelled from the spec: the digest of sections 4.1 to 4.4, computed in the compiled module;
  here the bytes that the digest function of the implementation gives at each index.
\<close>

definition compute_digest :: "core_impl \<Rightarrow> variant \<Rightarrow> nat \<Rightarrow> nat \<Rightarrow> nat \<Rightarrow> byte list \<Rightarrow> byte list \<Rightarrow> nat \<Rightarrow> byte list" where
  "compute_digest I v t m p pwd_bytes salt_bytes outlen =
     map (digest_fn I v t m p pwd_bytes salt_bytes outlen) [0 ..< outlen]"

text \<open>
  Modelled from the spec: the entry point Hash of section 6 (\<^verbatim>\<open>_argon2_hash\<close> of the
  compiled module). Validation first, then the allocation of the
  memory matrix, then the digest and the encoded string. A failure writes nothing.
\<close>

definition spec_argon2_hash ::
  "core_impl \<Rightarrow> int \<Rightarrow> int \<Rightarrow> int \<Rightarrow> byte list \<Rightarrow> byte list \<Rightarrow> int \<Rightarrow> int \<Rightarrow> int \<Rightarrow> int
     \<Rightarrow> (int \<times> byte list \<times> byte list) call" where
  "spec_argon2_hash I t_cost m_cost lanes pwd_bytes salt_bytes outlen encodedlen ty ver =
     (case validate I t_cost m_cost lanes outlen ty of
        Some e \<Rightarrow> Ret (error_code e, [], [])
      | None \<Rightarrow>
          if m_cost > mem_avail I then Ret (error_code AllocationError, [], [])
          else (case variant_of_int ty of
                  None \<Rightarrow> Ret (error_code IncorrectType, [], [])
                | Some v \<Rightarrow>
                    (let digest = compute_digest I v (nat t_cost) (nat m_cost) (nat lanes)
                                    pwd_bytes salt_bytes (nat outlen);
                         enc = encode_string v (nat ver) (nat m_cost) (nat t_cost) (nat lanes)
                                 salt_bytes digest
                     in if encodedlen < int (length enc) + 1
                        then Ret (error_code EncodingFail, [], [])
                        else Ret (0, digest, ascii_bytes enc @ [0]))))"

text \<open>
  Modelled from the spec: the entry point Verify of section 6 (\<^verbatim>\<open>_argon2_verify\<close> of the
  compiled module). The encoded string is parsed, the hash is
  recomputed with the parameters and the salt embedded in it, under the variant the caller
  passes, and compared with the embedded digest.
\<close>

definition spec_argon2_verify :: "core_impl \<Rightarrow> byte list \<Rightarrow> byte list \<Rightarrow> jsval \<Rightarrow> int call" where
  "spec_argon2_verify I enc_mem pwd_bytes ty =
     (case decode_string (stringify enc_mem) of
        None \<Rightarrow> Ret (error_code ParseError)
      | Some d \<Rightarrow>
          (case validate I (int (d_t d)) (int (d_m d)) (int (d_p d)) (int (length (d_digest d)))
                  (to_int32 ty) of
             Some e \<Rightarrow> Ret (error_code e)
           | None \<Rightarrow>
               if int (d_m d) > mem_avail I then Ret (error_code AllocationError)
               else (case variant_of_int (to_int32 ty) of
                       None \<Rightarrow> Ret (error_code IncorrectType)
                     | Some v \<Rightarrow>
                         if compute_digest I v (d_t d) (d_m d) (d_p d) pwd_bytes (d_salt d)
                              (length (d_digest d)) = d_digest d
                         then Ret 0
                         else Ret (error_code VerificationMismatch))))"

text \<open>
  Modelled from the spec: the message of a result code of section 7
  (\<^verbatim>\<open>_argon2_error_message\<close> of the compiled module); 0 and an undefined code read as
  success. Then the module as a whole.
\<close>

definition spec_error_message :: "int option \<Rightarrow> string call" where
  "spec_error_message res =
     (case res of
        None \<Rightarrow> Ret ''OK''
      | Some c \<Rightarrow>
          if c = 0 then Ret ''OK''
          else (case find (\<lambda>e. error_code e = c) all_core_errors of
                  Some e \<Rightarrow> Ret (error_text e)
                | None \<Rightarrow> Ret ''Unknown error code''))"

definition spec_module :: "core_impl \<Rightarrow> asm_module" where
  "spec_module I =
     \<lparr>intArrayFromString = stringToUTF8,
      Pointer_stringify = stringify,
      argon2_hash = spec_argon2_hash I,
      argon2_verify = spec_argon2_verify I,
      argon2_error_message = spec_error_message\<rparr>"

section \<open>Notions the properties are stated with\<close>

text \<open>The bytes \<^verbatim>\<open>allocateArray\<close> stores for a string or an array.\<close>

definition marshalled :: "asm_module \<Rightarrow> str_or_arr \<Rightarrow> byte list" where
  "marshalled M x = (case x of Arr a \<Rightarrow> a | Str s \<Rightarrow> intArrayFromString M s)"

text \<open>
  The numeric defaults of \<^verbatim>\<open>argon2Hash\<close> as its doc comment gives them: a time, memory,
  output length or parallelism that is omitted or 0 is replaced by its default.
\<close>

definition default_if_omitted_or_zero :: "int option \<Rightarrow> int \<Rightarrow> int option" where
  "default_if_omitted_or_zero v d = (if v = None \<or> v = Some 0 then Some d else v)"

definition with_numeric_defaults :: "hash_params \<Rightarrow> hash_params" where
  "with_numeric_defaults params =
     params\<lparr>time := default_if_omitted_or_zero (time params) 1,
            mem := default_if_omitted_or_zero (mem params) 1024,
            hashLen := default_if_omitted_or_zero (hashLen params) 24,
            parallelism := default_if_omitted_or_zero (parallelism params) 1\<rparr>"

text \<open>A call that passes the type, and not as 0 (which is Argon2d).\<close>

definition explicit_type :: "hash_params \<Rightarrow> bool" where
  "explicit_type params = (case type params of None \<Rightarrow> False | Some t \<Rightarrow> t \<noteq> 0)"

text \<open>
  The precedence rule for the variant of a verification, in the words of the spec: an
  explicit type wins, then the tag field of the encoded string (the second of its fields
  between \<open>$\<close>), then Argon2d. A tag is recognized when it names a key of \<^verbatim>\<open>ArgonType\<close>, its
  first letter in either case.
\<close>

definition tag_field :: "string \<Rightarrow> string option" where
  "tag_field s = (case split_on CHR ''$'' s of f0 # f1 # fs \<Rightarrow> Some f1 | _ \<Rightarrow> None)"

definition recognized_variant :: "string \<Rightarrow> int option" where
  "recognized_variant tag =
     (if tag = ''argon2d'' \<or> tag = ''Argon2d'' then Some Argon2d
      else if tag = ''argon2i'' \<or> tag = ''Argon2i'' then Some Argon2i
      else if tag = ''argon2id'' \<or> tag = ''Argon2id'' then Some Argon2id
      else None)"

definition variant_by_precedence :: "int option \<Rightarrow> string \<Rightarrow> int" where
  "variant_by_precedence explicit enc =
     (case explicit of
        Some t \<Rightarrow> t
      | None \<Rightarrow>
          (case tag_field enc of
             None \<Rightarrow> Argon2d
           | Some tag \<Rightarrow> (case recognized_variant tag of Some v \<Rightarrow> v | None \<Rightarrow> Argon2d)))"

text \<open>The object an outcome carries, returned or thrown.\<close>

fun payload :: "'a outcome \<Rightarrow> 'a option" where
  "payload (Returned r) = Some r"
| "payload (Thrown r) = Some r"
| "payload (Uncaught e) = None"

text \<open>The hex encoding of a byte string: two lowercase hex digits a byte.\<close>

definition hex_of_bytes :: "byte list \<Rightarrow> string" where
  "hex_of_bytes bs =
     concat (map (\<lambda>b. [''0123456789abcdef'' ! (unat b div 16),
                         ''0123456789abcdef'' ! (unat b mod 16)]) bs)"

text \<open>What a buffer of \<open>n\<close> zero bytes holds after \<open>out\<close> is written to it.\<close>

definition written :: "nat \<Rightarrow> byte list \<Rightarrow> byte list" where
  "written n out = take n out @ replicate (n - length out) 0"

text \<open>A heap whose live blocks all lie below its top.\<close>

definition heap_ok :: "heap \<Rightarrow> bool" where
  "heap_ok h = list_all (\<lambda>(q, n). q < brk h) (live h)"

text \<open>
  The bytes of a password or salt that the module reads: \<^verbatim>\<open>argon2Hash\<close> and \<^verbatim>\<open>argon2Verify\<close>
  pass the \<^verbatim>\<open>length\<close> of the string or array as the number of bytes.
\<close>

definition core_view :: "asm_module \<Rightarrow> str_or_arr \<Rightarrow> byte list" where
  "core_view M x = take (nat (js_length x)) (marshalled M x)"

text \<open>
  A valid parameter combination, in the words of the spec (sections 3 and 4.5), on the values
  after the defaults of the doc comment (Argon2d for the type): time cost at least 1, memory
  cost at least 8 times the parallelism and within what the implementation accepts and can
  allocate, parallelism from 1 to \<open>2^24 - 1\<close>, output length at least 4 (and an array
  length), variant one of the three.
\<close>

definition valid_params :: "core_impl \<Rightarrow> hash_params \<Rightarrow> bool" where
  "valid_params I params =
     (let t = or_default (time params) 1; m = or_default (mem params) 1024;
          p = or_default (parallelism params) 1; n = or_default (hashLen params) 24;
          ty = or_default (type params) Argon2d
      in 1 \<le> t \<and> 8 * p \<le> m \<and> m \<le> mem_max I \<and> m \<le> mem_avail I \<and> 1 \<le> p \<and> p \<le> 2 ^ 24 - 1
         \<and> 4 \<le> n \<and> n < 2 ^ 32 \<and> (ty = Argon2d \<or> ty = Argon2i \<or> ty = Argon2id))"

text \<open>The digest and the encoded string the modelled module computes for a call of hash.\<close>

fun variant_int :: "variant \<Rightarrow> int" where
  "variant_int VArgon2d = 0"
| "variant_int VArgon2i = 1"
| "variant_int VArgon2id = 2"

definition spec_variant :: "hash_params \<Rightarrow> variant" where
  "spec_variant params =
     (case variant_of_int (or_default (type params) Argon2d) of Some v \<Rightarrow> v | None \<Rightarrow> VArgon2d)"

definition spec_digest :: "core_impl \<Rightarrow> hash_params \<Rightarrow> byte list" where
  "spec_digest I params =
     compute_digest I (spec_variant params) (nat (or_default (time params) 1))
       (nat (or_default (mem params) 1024)) (nat (or_default (parallelism params) 1))
       (core_view (spec_module I) (pass params)) (core_view (spec_module I) (salt params))
       (nat (or_default (hashLen params) 24))"

definition spec_encoded :: "core_impl \<Rightarrow> hash_params \<Rightarrow> string" where
  "spec_encoded I params =
     encode_string (spec_variant params) 19 (nat (or_default (mem params) 1024))
       (nat (or_default (time params) 1)) (nat (or_default (parallelism params) 1))
       (core_view (spec_module I) (salt params)) (spec_digest I params)"

text \<open>The characters an encoded string is made of.\<close>

definition enc_chars :: "char set" where
  "enc_chars = set b64_alphabet \<union> {CHR ''$'', CHR ''='', CHR '',''}"






text \<open>
  A string is base64 without padding when it is the encoding of some bytes: its characters
  are of the alphabet, four for every three bytes; two characters are left for one more byte
  and three for two more, the bits of the last one that encode nothing being 0 (so that one
  is among \<^verbatim>\<open>AQgw\<close>, or among the sixteen characters whose value is a multiple of 4); one
  character is never left.
\<close>

fun is_base64 :: "string \<Rightarrow> bool" where
  "is_base64 [] = True"
| "is_base64 [c1] = False"
| "is_base64 [c1, c2] = (c1 \<in> set b64_alphabet \<and> c2 \<in> set ''AQgw'')"
| "is_base64 [c1, c2, c3] =
     (c1 \<in> set b64_alphabet \<and> c2 \<in> set b64_alphabet \<and> c3 \<in> set ''AEIMQUYcgkosw048'')"
| "is_base64 (c1 # c2 # c3 # c4 # rest) =
     (c1 \<in> set b64_alphabet \<and> c2 \<in> set b64_alphabet \<and> c3 \<in> set b64_alphabet
      \<and> c4 \<in> set b64_alphabet \<and> is_base64 rest)"





text \<open>
  Concrete inputs for the examples: a heap with nothing allocated; an implementation of the
  core with a given digest function, and one whose digest function adds up its inputs; the
  call of the example in the doc comment of \<^verbatim>\<open>argon2Hash\<close> (line 52), which passes no type,
  and the same call with the type Argon2i.
\<close>

definition example_heap :: heap where
  "example_heap = \<lparr>HEAP8 = (\<lambda>a. 0), live = [], brk = 8\<rparr>"

definition example_core ::
  "(variant \<Rightarrow> nat \<Rightarrow> nat \<Rightarrow> nat \<Rightarrow> byte list \<Rightarrow> byte list \<Rightarrow> nat \<Rightarrow> nat \<Rightarrow> byte) \<Rightarrow> core_impl" where
  "example_core d = \<lparr>digest_fn = d, mem_max = 2 ^ 32 - 1, mem_avail = 2 ^ 21\<rparr>"

definition example_impl :: core_impl where
  "example_impl =
     example_core (\<lambda>v t m p pwd_bytes salt_bytes outlen i.
                     of_nat (i + t + m + p + outlen) + sum_list pwd_bytes + sum_list salt_bytes
                     + (case v of VArgon2d \<Rightarrow> 0 | VArgon2i \<Rightarrow> 1 | VArgon2id \<Rightarrow> 2))"

definition doc_example_params :: hash_params where
  "doc_example_params =
     \<lparr>pass = Str ''password'', salt = Str ''somesalt'', time = None, mem = None,
      hashLen = None, parallelism = None, type = None\<rparr>"

definition example_params :: hash_params where
  "example_params = doc_example_params\<lparr>type := Some Argon2i\<rparr>"

section \<open>Properties of the wrapper\<close>

declare hash_loop.simps [simp del] toString16.simps [simp del] show_nat.simps [simp del]

subsection \<open>Defaults\<close>

lemma or_default_default [simp]:
  "or_default (default_if_omitted_or_zero v d) d = or_default v d"
  by (auto simp: or_default_def default_if_omitted_or_zero_def split: option.splits)

lemma or_default_omitted_or_zero: "v = None \<or> v = Some 0 \<Longrightarrow> or_default v d = d"
  by (auto simp: or_default_def)

lemma hash_setup_with_defaults:
  "hash_setup M h (with_numeric_defaults params) = hash_setup M h params"
  by (simp add: hash_setup_def with_numeric_defaults_def Let_def split: prod.splits sum.splits)

lemma or_else_Inr: "or_else v argon2_ArgonType_Argon2d = Inr t \<longleftrightarrow> v = Some t \<and> t \<noteq> 0"
  by (auto simp: or_else_def argon2_ArgonType_Argon2d_def split: option.splits)

lemma or_else_Inl:
  "or_else v argon2_ArgonType_Argon2d = Inl e \<longleftrightarrow> (v = None \<or> v = Some 0) \<and> e = ReferenceError"
  by (auto simp: or_else_def argon2_ArgonType_Argon2d_def split: option.splits)

lemma hash_setup_locals:
  assumes "hash_setup M h params = (Inr l, h')"
  shows "l_tCost l = or_default (time params) 1"
    and "l_mCost l = or_default (mem params) 1024"
    and "l_parallelism l = or_default (parallelism params) 1"
    and "l_hashlen l = or_default (hashLen params) 24"
    and "l_argon2Type l = or_default (type params) Argon2d"
    and "l_version l = 0x13"
    and "l_encodedlen l = 512"
    and "l_pwdlen l = js_length (pass params)"
    and "l_saltlen l = js_length (salt params)"
    and "type params = Some (l_argon2Type l)"
    and "l_argon2Type l \<noteq> 0"
  using assms
  by (auto simp: hash_setup_def Let_def or_else_Inr or_default_def split: prod.splits sum.splits)

subsection \<open>The heap during a call\<close>

lemma allocateArray_marshalled: "allocateArray M h x = allocate h (marshalled M x)"
  by (simp add: allocateArray_def marshalled_def)

lemma free_facts [simp]:
  "live (free h p) = filter (\<lambda>(q, n). q \<noteq> p) (live h)"
  "brk (free h p) = brk h"
  "HEAP8 (free h p) = HEAP8 h"
  by (simp_all add: free_def)

lemma hash_setup_Inr:
  assumes "hash_setup M h params = (Inr l, h4)"
  defines "n \<equiv> or_default (hashLen params) 24"
  defines "lp \<equiv> length (marshalled M (pass params))"
  defines "ls \<equiv> length (marshalled M (salt params))"
  shows "0 \<le> n \<and> n < 2 ^ 32"
    and "l_pwd l = brk h"
    and "l_salt l = brk h + max 1 lp"
    and "l_hash l = brk h + max 1 lp + max 1 ls"
    and "l_encoded l = brk h + max 1 lp + max 1 ls + max 1 (nat n)"
    and "brk h4 = l_encoded l + 512"
    and "live h4 = [(l_encoded l, 512), (l_hash l, nat n), (l_salt l, ls), (l_pwd l, lp)] @ live h"
    and "HEAP8 h4 = write_bytes (write_bytes (write_bytes (write_bytes (HEAP8 h)
            (l_pwd l) (marshalled M (pass params))) (l_salt l) (marshalled M (salt params)))
            (l_hash l) (replicate (nat n) 0)) (l_encoded l) (replicate 512 0)"
    and "l_hashlen l = n"
  using assms(1) unfolding n_def lp_def ls_def
  by (auto simp: hash_setup_def allocateArray_marshalled allocate_def new_Array_def Let_def
      split: if_splits sum.splits)

lemma hash_setup_RangeError:
  assumes "\<not> (0 \<le> or_default (hashLen params) 24 \<and> or_default (hashLen params) 24 < 2 ^ 32)"
  shows "\<exists>h2. hash_setup M h params = (Inl RangeError, h2)
           \<and> live h2 = [(brk h + max 1 (length (marshalled M (pass params))),
                         length (marshalled M (salt params))),
                        (brk h, length (marshalled M (pass params)))] @ live h"
  using assms
  by (auto simp: hash_setup_def allocateArray_marshalled allocate_def new_Array_def Let_def)

lemma hash_setup_ReferenceError:
  assumes "0 \<le> or_default (hashLen params) 24" "or_default (hashLen params) 24 < 2 ^ 32"
    and "type params = None \<or> type params = Some 0"
  shows "\<exists>h4. hash_setup M h params = (Inl ReferenceError, h4)
           \<and> live h4 = [(brk h + max 1 (length (marshalled M (pass params)))
                           + max 1 (length (marshalled M (salt params)))
                           + max 1 (nat (or_default (hashLen params) 24)), 512),
                        (brk h + max 1 (length (marshalled M (pass params)))
                           + max 1 (length (marshalled M (salt params))),
                         nat (or_default (hashLen params) 24)),
                        (brk h + max 1 (length (marshalled M (pass params))),
                         length (marshalled M (salt params))),
                        (brk h, length (marshalled M (pass params)))] @ live h"
  using assms
  by (auto simp: hash_setup_def allocateArray_marshalled allocate_def new_Array_def Let_def
      or_else_def argon2_ArgonType_Argon2d_def)

lemma explicit_type_iff: "explicit_type params \<longleftrightarrow> \<not> (type params = None \<or> type params = Some 0)"
  by (auto simp: explicit_type_def split: option.splits)

lemma hash_setup_total:
  "(\<exists>l h4. hash_setup M h params = (Inr l, h4)) \<longleftrightarrow>
   (0 \<le> or_default (hashLen params) 24 \<and> or_default (hashLen params) 24 < 2 ^ 32
    \<and> explicit_type params)"
  by (auto simp: hash_setup_def allocateArray_marshalled allocate_def new_Array_def Let_def
      or_else_def argon2_ArgonType_Argon2d_def explicit_type_def
      split: if_splits option.splits)

lemma hash_call_heap:
  assumes "hash_call M h l = (res, err, h5)"
  shows "live h5 = live h" and "brk h5 = brk h"
  using assms by (auto simp: hash_call_def split: call.splits prod.splits)

lemma filter_fresh:
  "list_all (\<lambda>(q, n). q < (b::nat)) xs \<Longrightarrow> b \<le> p \<Longrightarrow> filter (\<lambda>(q, n). q \<noteq> p) xs = xs"
  by (induction xs) auto

lemma hash_releases_all:
  assumes ok: "heap_ok h" and s: "hash_setup M h params = (Inr l, h4)"
  shows "live (snd (argon2Hash M h params)) = live h"
proof -
  obtain res err h5 where c: "hash_call M h4 l = (res, err, h5)"
    by (cases "hash_call M h4 l") auto
  note f = hash_setup_Inr [OF s]
  have l5: "live h5 = live h4" using hash_call_heap [OF c] by simp
  have "snd (argon2Hash M h params) = hash_free h5 l"
    using s c by (simp add: argon2Hash_def Let_def split: prod.splits)
  moreover have "live (hash_free h5 l) = live h"
    using ok f(2-5) by (simp add: hash_free_def l5 f(7) heap_ok_def filter_fresh)
  ultimately show ?thesis by simp
qed

subsection \<open>The loop that builds the hex string\<close>

lemma and_ff_sint: "nat (0xFF AND sint (b::byte)) = unat b"
proof -
  have "(0xFF::int) = mask 8" by (simp add: mask_eq_exp_minus_1)
  then have "(0xFF::int) AND sint b = take_bit 8 (sint b)"
    by (simp add: take_bit_eq_mask and.commute)
  also have "\<dots> = uint b" using uint_sint [of b] by simp
  finally show ?thesis by simp
qed

lemma toString16_small: "n < 16 \<Longrightarrow> toString16 n = [hex_digit n]"
  by (subst toString16.simps) simp

lemma toString16_byte:
  "n < 256 \<Longrightarrow> slice_last2 (''0'' @ toString16 n) = [hex_digit (n div 16), hex_digit (n mod 16)]"
proof (cases "n < 16")
  case True
  then show ?thesis by (simp add: toString16_small slice_last2_def hex_digit_def)
next
  case False
  assume "n < 256"
  then have "n div 16 < 16" by simp
  with False show ?thesis
    by (subst toString16.simps) (simp add: toString16_small slice_last2_def)
qed

lemma hex_step:
  "slice_last2 (''0'' @ toString16 (nat (0xFF AND sint (b::byte))))
   = [hex_digit (unat b div 16), hex_digit (unat b mod 16)]"
proof -
  have "unat b < 256" using unsigned_less [of b, where 'a = nat] by simp
  then show ?thesis by (simp only: and_ff_sint toString16_byte)
qed

lemma read_bytes_Suc: "read_bytes h p (Suc n) = HEAP8 h p # read_bytes h (Suc p) n"
proof -
  have "[p ..< p + Suc n] = p # [Suc p ..< Suc p + n]"
    using upt_conv_Cons [of p "p + Suc n"] by simp
  then show ?thesis unfolding read_bytes_def by simp
qed

lemma hex_of_bytes_Cons:
  "hex_of_bytes (b # bs) = [hex_digit (unat b div 16), hex_digit (unat b mod 16)] @ hex_of_bytes bs"
  by (simp add: hex_of_bytes_def hex_digit_def)

lemma hash_loop_eq:
  "i \<le> n \<Longrightarrow> length arr = n \<Longrightarrow>
   hash_loop h p (int n) i (arr, str)
   = (take i arr @ read_bytes h (p + i) (n - i), str @ hex_of_bytes (read_bytes h (p + i) (n - i)))"
proof (induction "n - i" arbitrary: i arr str)
  case 0
  then have "i = n" by simp
  then show ?case using 0 by (subst hash_loop.simps) (simp add: read_bytes_def hex_of_bytes_def)
next
  case (Suc k)
  then have lt: "i < n" and k: "k = n - Suc i" by simp_all
  let ?b = "HEAP8 h (p + i)"
  have step: "hash_loop h p (int n) i (arr, str)
        = hash_loop h p (int n) (Suc i)
            (arr[i := ?b], str @ [hex_digit (unat ?b div 16), hex_digit (unat ?b mod 16)])"
    using lt hex_step [of ?b] by (subst hash_loop.simps) (simp add: Let_def)
  have ih: "hash_loop h p (int n) (Suc i)
            (arr[i := ?b], str @ [hex_digit (unat ?b div 16), hex_digit (unat ?b mod 16)])
        = (take (Suc i) (arr[i := ?b]) @ read_bytes h (p + Suc i) (n - Suc i),
           (str @ [hex_digit (unat ?b div 16), hex_digit (unat ?b mod 16)])
             @ hex_of_bytes (read_bytes h (p + Suc i) (n - Suc i)))"
    using Suc.hyps(1) [OF k] lt Suc.prems by simp
  have rd: "read_bytes h (p + i) (n - i) = ?b # read_bytes h (p + Suc i) (n - Suc i)"
    using lt read_bytes_Suc [of h "p + i" "n - Suc i"] by (simp add: Suc_diff_Suc)
  have tk: "take (Suc i) (arr[i := ?b]) = take i arr @ [?b]"
    using lt Suc.prems by (simp add: take_Suc_conv_app_nth)
  show ?case unfolding step ih rd tk by (simp add: hex_of_bytes_Cons)
qed

lemma length_hex_of_bytes: "length (hex_of_bytes bs) = 2 * length bs"
  by (induction bs) (simp_all add: hex_of_bytes_def)

lemma length_read_bytes [simp]: "length (read_bytes h p n) = n"
  by (simp add: read_bytes_def)

lemma hash_loop_result:
  "0 \<le> n \<Longrightarrow> hash_loop h p n 0 (replicate (nat n) 0, [])
     = (read_bytes h p (nat n), hex_of_bytes (read_bytes h p (nat n)))"
  using hash_loop_eq [of 0 "nat n" "replicate (nat n) 0" h p "[]"] by simp

subsection \<open>What a call of hash gives\<close>

lemma nth_written: "j < n \<Longrightarrow> written n out ! j = (if j < length out then out ! j else 0)"
  by (auto simp: written_def nth_append)

lemma length_written [simp]: "length (written n out) = n"
  by (simp add: written_def)

lemma read_bytes_nth: "j < n \<Longrightarrow> read_bytes h p n ! j = HEAP8 h (p + j)"
  by (simp add: read_bytes_def)

lemma hash_call_Ret:
  assumes s: "hash_setup M h params = (Inr l, h4)"
    and c: "hash_core M h4 l = Ret (res, ho, eo)"
  shows "\<exists>h5. hash_call M h4 l = (Some res, JUndefined, h5)
           \<and> read_bytes h5 (l_hash l) (nat (l_hashlen l)) = written (nat (l_hashlen l)) ho
           \<and> read_bytes h5 (l_encoded l) (brk h5 - l_encoded l) = written 512 eo"
proof -
  note f = hash_setup_Inr [OF s]
  define h5 where "h5 = h4\<lparr>HEAP8 := write_bytes
                (write_bytes (HEAP8 h4) (l_hash l) (take (nat (l_hashlen l)) ho))
                (l_encoded l) (take (nat (l_encodedlen l)) eo)\<rparr>"
  have call: "hash_call M h4 l = (Some res, JUndefined, h5)"
    using c by (simp add: hash_call_def h5_def)
  have el: "l_encodedlen l = 512" using hash_setup_locals(7) [OF s] .
  have b5: "brk h5 - l_encoded l = 512" using f(6) by (simp add: h5_def)
  have "read_bytes h5 (l_hash l) (nat (l_hashlen l)) = written (nat (l_hashlen l)) ho"
  proof (rule nth_equalityI)
    show "length (read_bytes h5 (l_hash l) (nat (l_hashlen l))) = length (written (nat (l_hashlen l)) ho)"
      by simp
  next
    fix j assume "j < length (read_bytes h5 (l_hash l) (nat (l_hashlen l)))"
    then have j: "j < nat (l_hashlen l)" by simp
    then have "l_hash l + j < l_encoded l" using f(4,5,9) by simp
    then show "read_bytes h5 (l_hash l) (nat (l_hashlen l)) ! j = written (nat (l_hashlen l)) ho ! j"
      using j f(4,5,9)
      by (auto simp: read_bytes_nth nth_written h5_def write_bytes_def f(8))
  qed
  moreover have "read_bytes h5 (l_encoded l) (brk h5 - l_encoded l) = written 512 eo"
    unfolding b5
  proof (rule nth_equalityI)
    show "length (read_bytes h5 (l_encoded l) 512) = length (written 512 eo)" by simp
  next
    fix j assume "j < length (read_bytes h5 (l_encoded l) 512)"
    then have j: "j < 512" by simp
    then show "read_bytes h5 (l_encoded l) 512 ! j = written 512 eo ! j"
      using f(4,5,9)
      by (auto simp: read_bytes_nth nth_written h5_def write_bytes_def f(8) el)
  qed
  ultimately show ?thesis using call by blast
qed

lemma argon2Hash_success:
  assumes s: "hash_setup M h params = (Inr l, h4)"
    and c: "hash_core M h4 l = Ret (0, ho, eo)"
  shows "fst (argon2Hash M h params)
         = Returned (HashResult (written (nat (l_hashlen l)) ho)
                      (hex_of_bytes (written (nat (l_hashlen l)) ho))
                      (Pointer_stringify M (written 512 eo)))"
proof -
  from hash_call_Ret [OF s c] obtain h5 where
    call: "hash_call M h4 l = (Some 0, JUndefined, h5)"
    and rd: "read_bytes h5 (l_hash l) (nat (l_hashlen l)) = written (nat (l_hashlen l)) ho"
    and re: "read_bytes h5 (l_encoded l) (brk h5 - l_encoded l) = written 512 eo"
    by blast
  have n0: "0 \<le> l_hashlen l" using hash_setup_Inr(1,9) [OF s] by simp
  show ?thesis
    using s call
    by (simp add: argon2Hash_def hash_result_of_def hash_loop_result [OF n0] rd re)
qed

lemma argon2Hash_failure:
  assumes s: "hash_setup M h params = (Inr l, h4)"
    and c: "hash_core M h4 l = Ret (res, ho, eo)" and r: "res \<noteq> 0"
  shows "\<exists>m. (fst (argon2Hash M h params) = Returned (HashError m (Some res))
              \<or> fst (argon2Hash M h params) = Thrown (HashError m (Some res)))
            \<and> (\<forall>s. argon2_error_message M (Some res) = Ret s \<longrightarrow> m = JStr s)"
proof -
  from hash_call_Ret [OF s c] obtain h5 where
    call: "hash_call M h4 l = (Some res, JUndefined, h5)" by blast
  show ?thesis
    using s call r
    by (auto simp: argon2Hash_def hash_result_of_def Let_def split: call.splits)
qed

lemma argon2Hash_threw:
  assumes s: "hash_setup M h params = (Inr l, h4)"
    and c: "hash_core M h4 l = Threw e"
  shows "\<exists>m. (fst (argon2Hash M h params) = Returned (HashError m None)
              \<or> fst (argon2Hash M h params) = Thrown (HashError m None))
            \<and> (truthy e \<longrightarrow> m = e \<and> fst (argon2Hash M h params) = Thrown (HashError e None))"
proof -
  have call: "hash_call M h4 l = (None, e, h4)" using c by (simp add: hash_call_def)
  show ?thesis
    using s call
    by (auto simp: argon2Hash_def hash_result_of_def Let_def split: call.splits)
qed

lemma argon2Hash_uncaught:
  assumes "hash_setup M h params = (Inl e, h2)"
  shows "argon2Hash M h params = (Uncaught e, h2)"
  using assms by (simp add: argon2Hash_def)

subsection \<open>The type handed to the module by verify\<close>

lemma replace_first_unchanged:
  "b \<notin> set (replace_first a b xs) \<Longrightarrow> replace_first a b xs = xs"
  by (induction xs) (auto split: if_splits)

lemma replace_first_Argon2i:
  assumes "replace_first CHR ''a'' CHR ''A'' t = ''Argon2i''"
  shows "t = ''argon2i'' \<or> t = ''Argon2i''"
proof (cases t)
  case Nil
  with assms show ?thesis by simp
next
  case (Cons x xs)
  show ?thesis
  proof (cases "x = CHR ''a''")
    case True
    with assms Cons show ?thesis by simp
  next
    case False
    with assms Cons have x: "x = CHR ''A''" and r: "replace_first CHR ''a'' CHR ''A'' xs = ''rgon2i''"
      by simp_all
    from r have "CHR ''A'' \<notin> set (replace_first CHR ''a'' CHR ''A'' xs)" by simp
    then have "replace_first CHR ''a'' CHR ''A'' xs = xs" by (rule replace_first_unchanged)
    with r x Cons show ?thesis by simp
  qed
qed

lemma replace_first_Argon2id:
  assumes "replace_first CHR ''a'' CHR ''A'' t = ''Argon2id''"
  shows "t = ''argon2id'' \<or> t = ''Argon2id''"
proof (cases t)
  case Nil
  with assms show ?thesis by simp
next
  case (Cons x xs)
  show ?thesis
  proof (cases "x = CHR ''a''")
    case True
    with assms Cons show ?thesis by simp
  next
    case False
    with assms Cons have x: "x = CHR ''A''" and r: "replace_first CHR ''a'' CHR ''A'' xs = ''rgon2id''"
      by simp_all
    from r have "CHR ''A'' \<notin> set (replace_first CHR ''a'' CHR ''A'' xs)" by simp
    then have "replace_first CHR ''a'' CHR ''A'' xs = xs" by (rule replace_first_unchanged)
    with r x Cons show ?thesis by simp
  qed
qed

lemma index1_tag_field: "index1 (split_on CHR ''$'' s) = tag_field s"
  by (cases "split_on CHR ''$'' s" rule: index1.cases) (simp_all add: tag_field_def)

lemma ArgonType_cases:
  "ArgonType k = JNum Argon2d \<or> ArgonType k = JNum Argon2i \<and> k = ''Argon2i'' \<or>
   ArgonType k = JNum Argon2id \<and> k = ''Argon2id'' \<or>
   ArgonType k = JObj k \<and> k \<noteq> ''Argon2i'' \<and> k \<noteq> ''Argon2id'' \<or>
   ArgonType k = JUndefined \<and> k \<noteq> ''Argon2i'' \<and> k \<noteq> ''Argon2id''"
  by (simp add: ArgonType_def)

lemma tag_type_by_precedence:
  assumes "tag \<noteq> []"
  defines "v \<equiv> ArgonType (replace_first CHR ''a'' CHR ''A'' tag)"
  shows "to_int32 (if truthy v then v else JNum Argon2d)
         = (case recognized_variant tag of Some v \<Rightarrow> v | None \<Rightarrow> Argon2d)"
proof -
  let ?k = "replace_first CHR ''a'' CHR ''A'' tag"
  consider (d) "v = JNum Argon2d" | (i) "v = JNum Argon2i" "?k = ''Argon2i''"
    | (id) "v = JNum Argon2id" "?k = ''Argon2id''"
    | (o) "v = JObj ?k" "?k \<noteq> ''Argon2i''" "?k \<noteq> ''Argon2id''"
    | (u) "v = JUndefined" "?k \<noteq> ''Argon2i''" "?k \<noteq> ''Argon2id''"
    using ArgonType_cases [of ?k] unfolding v_def by blast
  then show ?thesis
  proof cases
    case d
    have "recognized_variant tag = Some Argon2d \<or> recognized_variant tag = None
          \<or> recognized_variant tag = Some Argon2i \<or> recognized_variant tag = Some Argon2id"
      by (simp add: recognized_variant_def)
    moreover have "recognized_variant tag \<noteq> Some Argon2i"
    proof
      assume "recognized_variant tag = Some Argon2i"
      then have "tag = ''argon2i'' \<or> tag = ''Argon2i''"
        by (auto simp: recognized_variant_def Argon2d_def Argon2i_def Argon2id_def split: if_splits)
      then have "?k = ''Argon2i''" by auto
      with d show False by (simp add: v_def ArgonType_def Argon2d_def Argon2i_def)
    qed
    moreover have "recognized_variant tag \<noteq> Some Argon2id"
    proof
      assume "recognized_variant tag = Some Argon2id"
      then have "tag = ''argon2id'' \<or> tag = ''Argon2id''"
        by (auto simp: recognized_variant_def Argon2d_def Argon2i_def Argon2id_def split: if_splits)
      then have "?k = ''Argon2id''" by auto
      with d show False by (simp add: v_def ArgonType_def Argon2d_def Argon2id_def)
    qed
    ultimately show ?thesis using d by (auto simp: Argon2d_def)
  next
    case i
    from i(2) have "tag = ''argon2i'' \<or> tag = ''Argon2i''" by (rule replace_first_Argon2i)
    then have "recognized_variant tag = Some Argon2i" by (auto simp: recognized_variant_def)
    with i show ?thesis by (simp add: Argon2i_def)
  next
    case id
    from id(2) have "tag = ''argon2id'' \<or> tag = ''Argon2id''" by (rule replace_first_Argon2id)
    then have "recognized_variant tag = Some Argon2id" by (auto simp: recognized_variant_def)
    with id show ?thesis by (simp add: Argon2id_def)
  next
    case o
    then have "recognized_variant tag = Some Argon2d \<or> recognized_variant tag = None"
      by (auto simp: recognized_variant_def)
    with o show ?thesis by (auto simp: Argon2d_def)
  next
    case u
    then have "recognized_variant tag = Some Argon2d \<or> recognized_variant tag = None"
      by (auto simp: recognized_variant_def)
    with u show ?thesis by (auto simp: Argon2d_def)
  qed
qed

lemma verify_type_Str:
  assumes "vtype params = None" "vencoded params = Str s"
  shows "\<exists>v. verify_type params = Inr v \<and> to_int32 v = variant_by_precedence None s"
proof (cases "tag_field s")
  case None
  with assms show ?thesis
    by (simp add: verify_type_def index1_tag_field variant_by_precedence_def Argon2d_def)
next
  case (Some tag)
  show ?thesis
  proof (cases "tag = []")
    case True
    with assms Some show ?thesis
      by (simp add: verify_type_def index1_tag_field variant_by_precedence_def
          recognized_variant_def Argon2d_def)
  next
    case False
    from tag_type_by_precedence [OF False] assms Some False show ?thesis
      by (simp add: verify_type_def index1_tag_field variant_by_precedence_def Let_def)
  qed
qed

subsection \<open>What a result object of hash tells\<close>

lemma argon2Hash_payload_setup:
  "payload (fst (argon2Hash M h params)) = Some r \<Longrightarrow> \<exists>l h4. hash_setup M h params = (Inr l, h4)"
  by (auto simp: argon2Hash_def split: prod.splits sum.splits)

lemma argon2Hash_HashResult:
  assumes r: "payload (fst (argon2Hash M h params)) = Some (HashResult d hx e)"
  shows "\<exists>l h4 ho eo. hash_setup M h params = (Inr l, h4) \<and> hash_core M h4 l = Ret (0, ho, eo)
           \<and> fst (argon2Hash M h params) = Returned (HashResult d hx e)
           \<and> d = written (nat (l_hashlen l)) ho \<and> hx = hex_of_bytes d
           \<and> e = Pointer_stringify M (written 512 eo)"
proof -
  from argon2Hash_payload_setup [OF r] obtain l h4 where
    s: "hash_setup M h params = (Inr l, h4)" by blast
  show ?thesis
  proof (cases "hash_core M h4 l")
    case (Threw x)
    from argon2Hash_threw [OF s Threw] r show ?thesis by auto
  next
    case (Ret t)
    obtain res ho eo where t: "t = (res, ho, eo)" by (cases t) auto
    show ?thesis
    proof (cases "res = 0")
      case False
      from argon2Hash_failure [OF s Ret [unfolded t] False] r show ?thesis by auto
    next
      case True
      with Ret t have c: "hash_core M h4 l = Ret (0, ho, eo)" by simp
      from argon2Hash_success [OF s c] r s c show ?thesis by auto
    qed
  qed
qed

subsection \<open>The heap after verify\<close>

lemma verify_releases_all:
  assumes ok: "heap_ok h" and vt: "verify_type params = Inr t"
  shows "live (snd (argon2Verify M h params)) = live h"
proof -
  obtain pwd h1 where a1: "allocateArray M h (vpass params) = (pwd, h1)"
    by (cases "allocateArray M h (vpass params)") auto
  obtain enc h2 where a2: "allocateArray M h1 (vencoded params) = (enc, h2)"
    by (cases "allocateArray M h1 (vencoded params)") auto
  have p: "pwd = brk h" "brk h1 = brk h + max 1 (length (marshalled M (vpass params)))"
    "live h1 = (pwd, length (marshalled M (vpass params))) # live h"
    using a1 by (auto simp: allocateArray_marshalled allocate_def Let_def)
  have q: "enc = brk h1" "live h2 = (enc, length (marshalled M (vencoded params))) # live h1"
    using a2 by (auto simp: allocateArray_marshalled allocate_def Let_def)
  have "snd (argon2Verify M h params) = free (free h2 pwd) enc"
    by (simp add: argon2Verify_def Let_def a1 a2 vt split: prod.splits)
  moreover have "live (free (free h2 pwd) enc) = live h"
    using ok p q by (simp add: heap_ok_def filter_fresh)
  ultimately show ?thesis by simp
qed

lemma verify_uncaught:
  assumes "verify_type params = Inl e"
  shows "fst (argon2Verify M h params) = Uncaught e"
    and "live (snd (argon2Verify M h params))
         = [(brk h + max 1 (length (marshalled M (vpass params))),
             length (marshalled M (vencoded params))),
            (brk h, length (marshalled M (vpass params)))] @ live h"
  using assms
  by (simp_all add: argon2Verify_def allocateArray_marshalled allocate_def Let_def)

subsection \<open>Failing calls, and what hash depends on\<close>

lemma argon2Hash_failure_msg:
  assumes s: "hash_setup M h params = (Inr l, h4)"
    and c: "hash_core M h4 l = Ret (res, ho, eo)" and r: "res \<noteq> 0"
    and m: "argon2_error_message M (Some res) = Ret msg"
  shows "fst (argon2Hash M h params)
         = (if msg \<noteq> [] then Thrown (HashError (JStr msg) (Some res))
            else Returned (HashError (JStr msg) (Some res)))"
proof -
  from hash_call_Ret [OF s c] obtain h5 where
    call: "hash_call M h4 l = (Some res, JUndefined, h5)" by blast
  show ?thesis
    using s call r m
    by (auto simp: argon2Hash_def hash_result_of_def Let_def)
qed






section \<open>Properties of the modelled module\<close>

subsection \<open>Looking up a character\<close>

lemma index_of_Some: "index_of x xs = Some i \<Longrightarrow> i < length xs \<and> xs ! i = x"
  by (induction xs arbitrary: i) (auto split: if_splits)

lemma index_of_None: "index_of x xs = None \<longleftrightarrow> x \<notin> set xs"
  by (induction xs) auto

lemma index_of_Some_mem: "index_of x xs = Some i \<Longrightarrow> x \<in> set xs"
  using index_of_None [of x xs] by auto

lemma index_of_nth: "distinct xs \<Longrightarrow> i < length xs \<Longrightarrow> index_of (xs ! i) xs = Some i"
proof (induction xs arbitrary: i)
  case Nil
  then show ?case by simp
next
  case (Cons y ys)
  then show ?case by (cases i) auto
qed

subsection \<open>Decimal numbers\<close>

lemma distinct_digits: "distinct ''0123456789''"
  by simp

lemma digit_val: "d < 10 \<Longrightarrow> index_of (digit_char d) ''0123456789'' = Some d"
  unfolding digit_char_def using index_of_nth [OF distinct_digits, of d] by simp

lemma parse_digits_snoc:
  "parse_digits acc (xs @ [c]) =
     (case parse_digits acc xs of
        None \<Rightarrow> None
      | Some v \<Rightarrow> (case index_of c ''0123456789'' of None \<Rightarrow> None | Some d \<Rightarrow> Some (v * 10 + d)))"
  by (induction xs arbitrary: acc) (auto split: option.splits)

lemma parse_digits_show_nat: "parse_digits 0 (show_nat n) = Some n"
proof (induction n rule: show_nat.induct)
  case (1 n)
  show ?case
  proof (cases "n < 10")
    case True
    then show ?thesis
      by (subst show_nat.simps) (simp add: digit_val del: index_of.simps)
  next
    case False
    with 1 have ih: "parse_digits 0 (show_nat (n div 10)) = Some (n div 10)" by simp
    have "n mod 10 < 10" by simp
    then have dv: "index_of (digit_char (n mod 10)) ''0123456789'' = Some (n mod 10)"
      by (rule digit_val)
    show ?thesis
      using False
      by (subst show_nat.simps) (simp add: parse_digits_snoc ih dv del: index_of.simps)
  qed
qed

lemma show_nat_nonempty: "show_nat n \<noteq> []"
  by (subst show_nat.simps) simp

lemma parse_nat_show_nat: "parse_nat (show_nat n) = Some n"
  by (simp add: parse_nat_def show_nat_nonempty parse_digits_show_nat)

lemma digit_char_in: "d < 10 \<Longrightarrow> digit_char d \<in> set ''0123456789''"
  unfolding digit_char_def using nth_mem [of d "''0123456789''"] by simp

lemma set_show_nat: "set (show_nat n) \<subseteq> set ''0123456789''"
proof (induction n rule: show_nat.induct)
  case (1 n)
  show ?case
  proof (cases "n < 10")
    case True
    then show ?thesis using digit_char_in [of n] by (subst show_nat.simps) simp
  next
    case False
    with 1 have "set (show_nat (n div 10)) \<subseteq> set ''0123456789''" by simp
    moreover have "digit_char (n mod 10) \<in> set ''0123456789''" by (rule digit_char_in) simp
    ultimately show ?thesis using False by (subst show_nat.simps) simp
  qed
qed

subsection \<open>Base64\<close>

lemma distinct_b64: "distinct b64_alphabet"
  by (simp add: b64_alphabet_def)

lemma length_b64: "length b64_alphabet = 64"
  by (simp add: b64_alphabet_def)

lemma b64_val_char: "v < 64 \<Longrightarrow> b64_val (b64_char v) = Some v"
  unfolding b64_val_def b64_char_def using index_of_nth [OF distinct_b64, of v]
  by (simp add: length_b64)

lemma b64_char_in: "v < 64 \<Longrightarrow> b64_char v \<in> set b64_alphabet"
  unfolding b64_char_def using nth_mem [of v b64_alphabet] by (simp add: length_b64)

lemma byte_lt: "unat (b::byte) < 256"
  using unsigned_less [of b, where 'a = nat] by simp

lemma byte_of_unat [simp]: "(of_nat (unat (b::byte)) :: byte) = b"
  by simp

lemma b64_bounds:
  fixes x y z :: nat
  assumes "x < 256" "y < 256" "z < 256"
  shows "x div 4 < 64" "x mod 4 * 16 < 64" "x mod 4 * 16 + y div 16 < 64" "y mod 16 * 4 < 64"
    "y mod 16 * 4 + z div 64 < 64" "z mod 64 < 64"
  using assms by auto

lemma b64_recombine:
  fixes x y z :: nat
  assumes "y < 256" "z < 256"
  shows "x div 4 * 4 + (x mod 4 * 16 + y div 16) div 16 = x"
    and "(x mod 4 * 16 + y div 16) mod 16 * 16 + (y mod 16 * 4 + z div 64) div 4 = y"
    and "(y mod 16 * 4 + z div 64) mod 4 * 64 + z mod 64 = z"
    and "x div 4 * 4 + (x mod 4 * 16) div 16 = x"
    and "(x mod 4 * 16) mod 16 = 0"
    and "(x mod 4 * 16 + y div 16) mod 16 * 16 + (y mod 16 * 4) div 4 = y"
    and "(y mod 16 * 4) mod 4 = 0"
proof -
  have a: "y div 16 < 16" using assms by simp
  have b: "z div 64 < 4" using assms by simp
  from a have c: "(x mod 4 * 16 + y div 16) div 16 = x mod 4" by simp
  from a have d: "(x mod 4 * 16 + y div 16) mod 16 = y div 16" by simp
  from b have e: "(y mod 16 * 4 + z div 64) div 4 = y mod 16" by simp
  from b have f: "(y mod 16 * 4 + z div 64) mod 4 = z div 64" by simp
  show "x div 4 * 4 + (x mod 4 * 16 + y div 16) div 16 = x" using c by simp
  show "(x mod 4 * 16 + y div 16) mod 16 * 16 + (y mod 16 * 4 + z div 64) div 4 = y"
    using d e by simp
  show "(y mod 16 * 4 + z div 64) mod 4 * 64 + z mod 64 = z" using f by simp
  show "x div 4 * 4 + (x mod 4 * 16) div 16 = x" by simp
  show "(x mod 4 * 16) mod 16 = 0" by simp
  show "(x mod 4 * 16 + y div 16) mod 16 * 16 + (y mod 16 * 4) div 4 = y" using d by simp
  show "(y mod 16 * 4) mod 4 = 0" by simp
qed

lemma b64_decode_encode: "b64_decode (b64_encode bs) = Some bs"
proof (induction bs rule: b64_encode.induct)
  case 1
  show ?case by simp
next
  case (2 a)
  note bd = b64_bounds [OF byte_lt [of a] byte_lt [of a] byte_lt [of a]]
  note r = b64_recombine [OF byte_lt [of a] byte_lt [of a]]
  have e: "b64_encode [a] = [b64_char (unat a div 4), b64_char (unat a mod 4 * 16)]"
    by (simp add: Let_def)
  show ?case unfolding e
    by (simp only: b64_decode.simps b64_val_char bd r prod.case option.case if_True simp_thms byte_of_unat)
next
  case (3 a b)
  note bd = b64_bounds [OF byte_lt [of a] byte_lt [of b] byte_lt [of b]]
  note r = b64_recombine [OF byte_lt [of b] byte_lt [of b]]
  have e: "b64_encode [a, b]
      = [b64_char (unat a div 4), b64_char (unat a mod 4 * 16 + unat b div 16),
         b64_char (unat b mod 16 * 4)]"
    by (simp add: Let_def)
  show ?case unfolding e
    by (simp only: b64_decode.simps b64_val_char bd r prod.case option.case if_True simp_thms byte_of_unat)
next
  case (4 a b c rest)
  note bd = b64_bounds [OF byte_lt [of a] byte_lt [of b] byte_lt [of c]]
  note r = b64_recombine [OF byte_lt [of b] byte_lt [of c]]
  have e: "b64_encode (a # b # c # rest)
      = b64_char (unat a div 4) # b64_char (unat a mod 4 * 16 + unat b div 16)
        # b64_char (unat b mod 16 * 4 + unat c div 64) # b64_char (unat c mod 64)
        # b64_encode rest"
    by (simp add: Let_def)
  show ?case unfolding e
    by (simp only: b64_decode.simps b64_val_char bd r prod.case option.case if_True simp_thms
        byte_of_unat "4.IH")
qed

lemma set_b64_encode: "set (b64_encode bs) \<subseteq> set b64_alphabet"
proof (induction bs rule: b64_encode.induct)
  case 1
  show ?case by simp
next
  case (2 a)
  note b = b64_bounds [OF byte_lt [of a] byte_lt [of a] byte_lt [of a]]
  show ?case by (simp add: Let_def b64_char_in b)
next
  case (3 a b)
  note bd = b64_bounds [OF byte_lt [of a] byte_lt [of b] byte_lt [of b]]
  show ?case by (simp add: Let_def b64_char_in bd)
next
  case (4 a b c rest)
  note bd = b64_bounds [OF byte_lt [of a] byte_lt [of b] byte_lt [of c]]
  from 4 show ?case by (simp add: Let_def b64_char_in bd)
qed

lemma length_b64_encode: "length (b64_encode bs) = (4 * length bs + 2) div 3"
  by (induction bs rule: b64_encode.induct) (simp_all add: Let_def)

lemma b64_val_Some_mem: "b64_val c = Some v \<Longrightarrow> c \<in> set b64_alphabet"
  unfolding b64_val_def by (rule index_of_Some_mem)

lemma b64_decode_Some_set: "b64_decode s = Some bs \<Longrightarrow> set s \<subseteq> set b64_alphabet"
proof (induction "length s" arbitrary: s bs rule: less_induct)
  case less
  consider "s = []" | c1 where "s = [c1]" | c1 c2 where "s = [c1, c2]"
    | c1 c2 c3 where "s = [c1, c2, c3]"
    | c1 c2 c3 c4 rest where "s = c1 # c2 # c3 # c4 # rest"
    by (metis list.exhaust)
  then show ?case
  proof cases
    case 1
    then show ?thesis by simp
  next
    case 2
    with less.prems show ?thesis by simp
  next
    case 3
    with less.prems show ?thesis
      by (auto split: option.splits if_splits dest: b64_val_Some_mem)
  next
    case 4
    with less.prems show ?thesis
      by (auto split: option.splits if_splits dest: b64_val_Some_mem)
  next
    case 5
    with less.prems obtain bs' where
      v: "b64_val c1 \<noteq> None" "b64_val c2 \<noteq> None" "b64_val c3 \<noteq> None" "b64_val c4 \<noteq> None"
      and r: "b64_decode rest = Some bs'"
      by (auto split: option.splits)
    have "set rest \<subseteq> set b64_alphabet"
      using less.hyps [of rest bs'] r 5 by simp
    with v 5 show ?thesis by (auto dest: b64_val_Some_mem)
  qed
qed

lemma b64_decode_invalid:
  "c \<in> set s \<Longrightarrow> c \<notin> set b64_alphabet \<Longrightarrow> b64_decode s = None"
  using b64_decode_Some_set [of s] by (cases "b64_decode s") auto

subsection \<open>Splitting at a separator\<close>

lemma split_on_nonempty: "split_on c xs \<noteq> []"
  by (induction xs) (auto split: list.splits)

lemma split_on_no_sep: "c \<notin> set xs \<Longrightarrow> split_on c xs = [xs]"
  by (induction xs) auto

lemma split_on_append: "c \<notin> set xs \<Longrightarrow> split_on c (xs @ c # ys) = xs # split_on c ys"
  by (induction xs) (auto split: list.splits simp: split_on_nonempty)

lemma length_split_on: "length (split_on c xs) = Suc (count_list xs c)"
  by (induction xs) (auto split: list.splits simp: split_on_nonempty)

subsection \<open>The encoded string parses back\<close>

lemma dollar_not_digit: "CHR ''$'' \<notin> set ''0123456789''" by simp
lemma comma_not_digit: "CHR '','' \<notin> set ''0123456789''" by simp
lemma dollar_not_b64: "CHR ''$'' \<notin> set b64_alphabet" by (simp add: b64_alphabet_def)

lemma dollar_not_show_nat: "CHR ''$'' \<notin> set (show_nat n)"
  using set_show_nat [of n] dollar_not_digit by blast

lemma comma_not_show_nat: "CHR '','' \<notin> set (show_nat n)"
  using set_show_nat [of n] comma_not_digit by blast

lemma dollar_not_b64_encode: "CHR ''$'' \<notin> set (b64_encode bs)"
  using set_b64_encode [of bs] dollar_not_b64 by blast

lemma dollar_not_tag: "CHR ''$'' \<notin> set (variant_tag v)"
  by (cases v) simp_all

lemma tag_variant_tag: "tag_variant (variant_tag v) = Some v"
  by (cases v) (simp_all add: tag_variant_def)

lemma parse_field_prefix: "parse_field pre (pre @ show_nat n) = Some n"
  by (simp add: parse_field_def strip_prefix_def parse_nat_show_nat)

lemma parse_costs_roundtrip:
  "parse_costs (''m='' @ show_nat m @ '',t='' @ show_nat t @ '',p='' @ show_nat p) = Some (m, t, p)"
proof -
  have s: "split_on CHR '','' (''m='' @ show_nat m @ '',t='' @ show_nat t @ '',p='' @ show_nat p)
        = [''m='' @ show_nat m, ''t='' @ show_nat t, ''p='' @ show_nat p]"
  proof -
    have "''m='' @ show_nat m @ '',t='' @ show_nat t @ '',p='' @ show_nat p
        = (''m='' @ show_nat m) @ CHR '','' # ((''t='' @ show_nat t) @ CHR '','' # (''p='' @ show_nat p))"
      by simp
    moreover have n: "CHR '','' \<notin> set (''m='' @ show_nat m)" "CHR '','' \<notin> set (''t='' @ show_nat t)"
      "CHR '','' \<notin> set (''p='' @ show_nat p)"
      using comma_not_show_nat by simp_all
    ultimately show ?thesis
      by (simp only: split_on_append [OF n(1)] split_on_append [OF n(2)] split_on_no_sep [OF n(3)])
  qed
  show ?thesis unfolding parse_costs_def s
    by (simp only: list.case parse_field_prefix prod.case option.case)
qed

lemma split_encode_string:
  "split_on CHR ''$'' (encode_string v ver m t p sb hb)
   = [[], variant_tag v, ''v='' @ show_nat ver,
      ''m='' @ show_nat m @ '',t='' @ show_nat t @ '',p='' @ show_nat p,
      b64_encode sb, b64_encode hb]"
proof -
  let ?cf = "''m='' @ show_nat m @ '',t='' @ show_nat t @ '',p='' @ show_nat p"
  have e: "encode_string v ver m t p sb hb
      = [] @ CHR ''$'' # (variant_tag v @ CHR ''$'' # ((''v='' @ show_nat ver) @ CHR ''$'' #
          (?cf @ CHR ''$'' # (b64_encode sb @ CHR ''$'' # b64_encode hb))))"
    by (simp add: encode_string_def)
  have n: "CHR ''$'' \<notin> set []" "CHR ''$'' \<notin> set (variant_tag v)"
    "CHR ''$'' \<notin> set (''v='' @ show_nat ver)" "CHR ''$'' \<notin> set ?cf"
    "CHR ''$'' \<notin> set (b64_encode sb)" "CHR ''$'' \<notin> set (b64_encode hb)"
    using dollar_not_show_nat dollar_not_b64_encode dollar_not_tag by simp_all
  show ?thesis unfolding e
    by (simp only: split_on_append [OF n(1)] split_on_append [OF n(2)] split_on_append [OF n(3)]
        split_on_append [OF n(4)] split_on_append [OF n(5)] split_on_no_sep [OF n(6)])
qed

lemma decode_encode_string:
  "decode_string (encode_string v 19 m t p sb hb)
   = Some \<lparr>d_variant = v, d_m = m, d_t = t, d_p = p, d_salt = sb, d_digest = hb\<rparr>"
  unfolding decode_string_def split_encode_string
  by (simp only: list.case simp_thms if_False if_True tag_variant_tag parse_field_prefix
      parse_costs_roundtrip b64_decode_encode prod.case option.case)

subsection \<open>Marshalling of ASCII strings\<close>

lemma enc_chars_ascii: "c \<in> enc_chars \<Longrightarrow> 0 < (of_char c :: nat) \<and> (of_char c :: nat) < 128"
  by (auto simp: enc_chars_def b64_alphabet_def)

lemma set_encode_string: "set (encode_string v ver m t p sb hb) \<subseteq> enc_chars"
proof -
  have d: "set ''0123456789'' \<subseteq> enc_chars" by (auto simp: enc_chars_def b64_alphabet_def)
  have "set (variant_tag v) \<subseteq> enc_chars"
    by (cases v) (auto simp: enc_chars_def b64_alphabet_def)
  moreover have "set (show_nat n) \<subseteq> enc_chars" for n using set_show_nat [of n] d by blast
  moreover have "set (b64_encode bs) \<subseteq> enc_chars" for bs
    using set_b64_encode [of bs] by (auto simp: enc_chars_def)
  moreover have "set ''$v=$m=,t=,p='' \<subseteq> enc_chars" by (auto simp: enc_chars_def b64_alphabet_def)
  ultimately show ?thesis by (auto simp: encode_string_def)
qed

lemma ascii_byte_nonzero:
  "0 < (of_char c :: nat) \<Longrightarrow> (of_nat (of_char c) :: byte) \<noteq> 0"
proof -
  assume "0 < (of_char c :: nat)"
  moreover have "(of_char c :: nat) < 256" by simp
  ultimately have "unat (of_nat (of_char c) :: byte) \<noteq> 0"
    by (simp add: unat_of_nat)
  then show ?thesis by auto
qed

lemma char_of_ascii_byte: "char_of (unat (of_nat (of_char c) :: byte)) = c"
proof -
  have "(of_char c :: nat) < 256" by simp
  then have "unat (of_nat (of_char c) :: byte) = of_char c" by (simp add: unat_of_nat)
  then show ?thesis by simp
qed

lemma stringify_ascii:
  assumes "\<forall>c\<in>set s. 0 < (of_char c :: nat)"
  shows "stringify (ascii_bytes s @ 0 # rest) = s"
proof -
  have "\<forall>b\<in>set (ascii_bytes s). b \<noteq> 0"
    using assms by (auto simp: ascii_bytes_def ascii_byte_nonzero)
  then have "c_string (ascii_bytes s @ 0 # rest) = ascii_bytes s"
    by (simp add: c_string_def takeWhile_append2)
  then show ?thesis
    by (simp add: stringify_def ascii_bytes_def o_def char_of_ascii_byte map_idI)
qed

lemma stringToUTF8_ascii:
  assumes "\<forall>c\<in>set s. (of_char c :: nat) < 128"
  shows "stringToUTF8 s = ascii_bytes s @ [0]"
proof -
  have "concat (map utf8_unit s) = ascii_bytes s"
    using assms by (induction s) (simp_all add: utf8_unit_def ascii_bytes_def)
  then show ?thesis by (simp add: stringToUTF8_def)
qed

subsection \<open>Reading the marshalled arguments\<close>

lemma map_write_same: "n \<le> length bs \<Longrightarrow> map (write_bytes m p bs) [p ..< p + n] = take n bs"
  by (rule nth_equalityI) (simp_all add: write_bytes_def)

lemma map_write_below: "q + n \<le> p \<Longrightarrow> map (write_bytes m p bs) [q ..< q + n] = map m [q ..< q + n]"
  by (rule nth_equalityI) (simp_all add: write_bytes_def)

lemma length_utf8_unit: "1 \<le> length (utf8_unit c)"
  by (simp add: utf8_unit_def Let_def)

lemma length_concat_utf8: "length s \<le> length (concat (map utf8_unit s))"
proof (induction s)
  case Nil
  show ?case by simp
next
  case (Cons c s)
  then show ?case using length_utf8_unit [of c] by simp
qed

lemma spec_marshal_len: "nat (js_length x) \<le> length (marshalled (spec_module I) x)"
  using length_concat_utf8
  by (cases x) (simp_all add: marshalled_def spec_module_def stringToUTF8_def le_SucI)

lemma hash_reads:
  assumes s: "hash_setup M h params = (Inr l, h4)"
    and lp: "nat (js_length (pass params)) \<le> length (marshalled M (pass params))"
    and ls: "nat (js_length (salt params)) \<le> length (marshalled M (salt params))"
  shows "read_bytes h4 (l_pwd l) (nat (l_pwdlen l)) = core_view M (pass params)"
    and "read_bytes h4 (l_salt l) (nat (l_saltlen l)) = core_view M (salt params)"
proof -
  note f = hash_setup_Inr [OF s]
  note loc = hash_setup_locals [OF s]
  let ?n = "nat (js_length (pass params))"
  let ?k = "nat (js_length (salt params))"
  have a: "l_pwd l + ?n \<le> l_salt l" using lp f(2,3) by simp
  have b: "l_salt l + ?k \<le> l_hash l" using ls f(3,4) by simp
  have c: "l_hash l \<le> l_encoded l" using f(4,5) by simp
  show "read_bytes h4 (l_pwd l) (nat (l_pwdlen l)) = core_view M (pass params)"
    unfolding read_bytes_def f(8) loc(8) core_view_def
    using a b c lp by (simp add: map_write_below map_write_same)
  show "read_bytes h4 (l_salt l) (nat (l_saltlen l)) = core_view M (salt params)"
    unfolding read_bytes_def f(8) loc(9) core_view_def
    using a b c ls by (simp add: map_write_below map_write_same)
qed

subsection \<open>Hash with the modelled module\<close>

lemma validate_None:
  "validate I t m p n ty = None \<longleftrightarrow>
   (1 \<le> t \<and> 8 * p \<le> m \<and> m \<le> mem_max I \<and> 1 \<le> p \<and> p \<le> 2 ^ 24 - 1 \<and> 4 \<le> n
    \<and> variant_of_int ty \<noteq> None)"
  by (auto simp: validate_def)

lemma variant_of_int_Some: "variant_of_int ty \<noteq> None \<longleftrightarrow> ty = Argon2d \<or> ty = Argon2i \<or> ty = Argon2id"
  by (auto simp: variant_of_int_def Argon2d_def Argon2i_def Argon2id_def)

lemma valid_params_iff:
  "valid_params I params \<longleftrightarrow>
   validate I (or_default (time params) 1) (or_default (mem params) 1024)
     (or_default (parallelism params) 1) (or_default (hashLen params) 24)
     (or_default (type params) Argon2d) = None
   \<and> or_default (mem params) 1024 \<le> mem_avail I \<and> or_default (hashLen params) 24 < 2 ^ 32"
  unfolding valid_params_def Let_def validate_None variant_of_int_Some by auto

lemma length_compute_digest [simp]: "length (compute_digest I v t m p pw sa n) = n"
  by (simp add: compute_digest_def)

lemma spec_hash_core:
  assumes s: "hash_setup (spec_module I) h params = (Inr l, h4)"
  shows "hash_core (spec_module I) h4 l =
     (case validate I (or_default (time params) 1) (or_default (mem params) 1024)
             (or_default (parallelism params) 1) (or_default (hashLen params) 24)
             (or_default (type params) Argon2d) of
        Some e \<Rightarrow> Ret (error_code e, [], [])
      | None \<Rightarrow>
          if or_default (mem params) 1024 > mem_avail I then Ret (error_code AllocationError, [], [])
          else if length (spec_encoded I params) < 512
          then Ret (0, spec_digest I params, ascii_bytes (spec_encoded I params) @ [0])
          else Ret (error_code EncodingFail, [], []))"
proof -
  note loc = hash_setup_locals [OF s]
  note rd = hash_reads [OF s spec_marshal_len spec_marshal_len]
  have m: "argon2_hash (spec_module I) = spec_argon2_hash I" by (simp add: spec_module_def)
  have "hash_core (spec_module I) h4 l =
      spec_argon2_hash I (or_default (time params) 1) (or_default (mem params) 1024)
        (or_default (parallelism params) 1) (core_view (spec_module I) (pass params))
        (core_view (spec_module I) (salt params)) (or_default (hashLen params) 24) 512
        (or_default (type params) Argon2d) 19"
    by (simp only: hash_core_def rd m loc(1-7))
  also have "\<dots> = (case validate I (or_default (time params) 1) (or_default (mem params) 1024)
             (or_default (parallelism params) 1) (or_default (hashLen params) 24)
             (or_default (type params) Argon2d) of
        Some e \<Rightarrow> Ret (error_code e, [], [])
      | None \<Rightarrow>
          if or_default (mem params) 1024 > mem_avail I then Ret (error_code AllocationError, [], [])
          else if length (spec_encoded I params) < 512
          then Ret (0, spec_digest I params, ascii_bytes (spec_encoded I params) @ [0])
          else Ret (error_code EncodingFail, [], []))"
  proof (cases "validate I (or_default (time params) 1) (or_default (mem params) 1024)
             (or_default (parallelism params) 1) (or_default (hashLen params) 24)
             (or_default (type params) Argon2d)")
    case None
    then obtain v where v: "variant_of_int (or_default (type params) Argon2d) = Some v"
      unfolding validate_None by auto
    show ?thesis
      unfolding spec_argon2_hash_def None
      by (simp add: v spec_encoded_def spec_digest_def spec_variant_def Let_def not_less)
  next
    case (Some e)
    show ?thesis unfolding spec_argon2_hash_def Some by simp
  qed
  finally show ?thesis .
qed

lemma written_exact: "length out = n \<Longrightarrow> written n out = out"
  by (simp add: written_def)

lemma written_short: "length out \<le> n \<Longrightarrow> written n out = out @ replicate (n - length out) 0"
  by (simp add: written_def)

lemma stringify_written:
  assumes "set s \<subseteq> enc_chars" "length s < 512"
  shows "stringify (written 512 (ascii_bytes s @ [0])) = s"
proof -
  have l: "length (ascii_bytes s @ [0]) \<le> 512" using assms(2) by (simp add: ascii_bytes_def)
  have "written 512 (ascii_bytes s @ [0])
        = ascii_bytes s @ 0 # replicate (512 - length (ascii_bytes s @ [0])) 0"
    unfolding written_short [OF l] by simp
  moreover have "\<forall>c\<in>set s. 0 < (of_char c :: nat)" using assms(1) enc_chars_ascii by blast
  ultimately show ?thesis by (simp only: stringify_ascii)
qed

lemma spec_hash_returns:
  assumes v: "valid_params I params" and x: "explicit_type params"
    and fit: "length (spec_encoded I params) < 512"
  shows "fst (argon2Hash (spec_module I) h params)
         = Returned (HashResult (spec_digest I params) (hex_of_bytes (spec_digest I params))
                      (spec_encoded I params))"
proof -
  from v have n: "0 \<le> or_default (hashLen params) 24 \<and> or_default (hashLen params) 24 < 2 ^ 32"
    by (simp add: valid_params_def Let_def)
  with x obtain l h4 where s: "hash_setup (spec_module I) h params = (Inr l, h4)"
    using hash_setup_total [of "spec_module I" h params] by blast
  have c: "hash_core (spec_module I) h4 l
           = Ret (0, spec_digest I params, ascii_bytes (spec_encoded I params) @ [0])"
    using v fit unfolding spec_hash_core [OF s] valid_params_iff by simp
  have ld: "length (spec_digest I params) = nat (l_hashlen l)"
    by (simp add: spec_digest_def hash_setup_locals(4) [OF s])
  have st: "Pointer_stringify (spec_module I) (written 512 (ascii_bytes (spec_encoded I params) @ [0]))
            = spec_encoded I params"
    using stringify_written [OF _ fit] set_encode_string
    by (simp add: spec_module_def spec_encoded_def)
  show ?thesis
    unfolding argon2Hash_success [OF s c] st written_exact [OF ld] ..
qed

lemma spec_hash_core_never_throws:
  assumes s: "hash_setup (spec_module I) h params = (Inr l, h4)"
  shows "\<exists>c ho eo. hash_core (spec_module I) h4 l = Ret (c, ho, eo)"
  unfolding spec_hash_core [OF s] by (auto split: option.splits)

lemma error_code_nonzero: "error_code e \<noteq> 0"
  by (cases e) simp_all

lemma spec_hash_returned_only_if:
  assumes r: "fst (argon2Hash (spec_module I) h params) = Returned (HashResult d hx e)"
  shows "valid_params I params \<and> explicit_type params \<and> length (spec_encoded I params) < 512
         \<and> d = spec_digest I params \<and> e = spec_encoded I params"
proof -
  from r obtain l h4 where s: "hash_setup (spec_module I) h params = (Inr l, h4)"
    using argon2Hash_payload_setup [of "spec_module I" h params] by auto
  have n: "0 \<le> or_default (hashLen params) 24 \<and> or_default (hashLen params) 24 < 2 ^ 32"
    and x: "explicit_type params"
    using hash_setup_total [of "spec_module I" h params] s by blast+
  obtain c ho eo where c: "hash_core (spec_module I) h4 l = Ret (c, ho, eo)"
    using spec_hash_core_never_throws [OF s] by blast
  have c0: "c = 0"
  proof (rule ccontr)
    assume "c \<noteq> 0"
    from argon2Hash_failure [OF s c this] r show False by auto
  qed
  from c c0 have ok: "valid_params I params \<and> length (spec_encoded I params) < 512"
    unfolding spec_hash_core [OF s] valid_params_iff using n error_code_nonzero
    by (auto split: option.splits if_splits)
  with spec_hash_returns [of I params h] x r show ?thesis by simp
qed

lemma length_stringToUTF8: "1 \<le> length (stringToUTF8 s)"
  by (simp add: stringToUTF8_def)

lemma spec_verify_core:
  assumes e: "vencoded params = Str s"
    and a1: "allocateArray (spec_module I) h (vpass params) = (pwd, h1)"
    and a2: "allocateArray (spec_module I) h1 (vencoded params) = (enc, h2)"
  shows "verify_core (spec_module I) h2 enc pwd (js_length (vpass params)) v
         = spec_argon2_verify I (stringToUTF8 s) (core_view (spec_module I) (vpass params)) v"
proof -
  let ?pw = "marshalled (spec_module I) (vpass params)"
  have en: "marshalled (spec_module I) (vencoded params) = stringToUTF8 s"
    using e by (simp add: marshalled_def spec_module_def)
  have p: "pwd = brk h" "brk h1 = brk h + max 1 (length ?pw)"
    "HEAP8 h1 = write_bytes (HEAP8 h) (brk h) ?pw"
    using a1 by (auto simp: allocateArray_marshalled allocate_def Let_def)
  have q: "enc = brk h1" "brk h2 = brk h1 + max 1 (length (stringToUTF8 s))"
    "HEAP8 h2 = write_bytes (HEAP8 h1) (brk h1) (stringToUTF8 s)"
    using a2 by (auto simp: allocateArray_marshalled allocate_def Let_def en)
  have l: "max 1 (length (stringToUTF8 s)) = length (stringToUTF8 s)"
    using length_stringToUTF8 [of s] by simp
  have r1: "read_bytes h2 enc (brk h2 - enc) = stringToUTF8 s"
    unfolding read_bytes_def q l by (simp add: map_write_same)
  have n: "nat (js_length (vpass params)) \<le> length ?pw" by (rule spec_marshal_len)
  then have "pwd + nat (js_length (vpass params)) \<le> enc" using p q by simp
  then have r2: "read_bytes h2 pwd (nat (js_length (vpass params)))
                 = core_view (spec_module I) (vpass params)"
    unfolding read_bytes_def q(3) core_view_def
    using n by (simp add: map_write_below q(1) p map_write_same)
  have m: "argon2_verify (spec_module I) = spec_argon2_verify I" by (simp add: spec_module_def)
  show ?thesis by (simp only: verify_core_def r1 r2 m)
qed

lemma spec_error_message_code: "spec_error_message (Some (error_code e)) = Ret (error_text e)"
  by (cases e) (simp_all add: spec_error_message_def all_core_errors_def)

lemma error_text_nonempty: "error_text e \<noteq> []"
  by (cases e) simp_all

lemma argon2Verify_spec_ok:
  assumes e: "vencoded params = Str s" and vt: "verify_type params = Inr v"
    and c: "spec_argon2_verify I (stringToUTF8 s) (core_view (spec_module I) (vpass params)) v = Ret 0"
  shows "fst (argon2Verify (spec_module I) h params) = Returned VerifyUndefined"
proof -
  obtain pwd h1 where a1: "allocateArray (spec_module I) h (vpass params) = (pwd, h1)"
    by (cases "allocateArray (spec_module I) h (vpass params)") auto
  obtain enc h2 where a2: "allocateArray (spec_module I) h1 (vencoded params) = (enc, h2)"
    by (cases "allocateArray (spec_module I) h1 (vencoded params)") auto
  show ?thesis
    by (simp add: argon2Verify_def Let_def a1 a2 vt spec_verify_core [OF e a1 a2] c
        verify_result_of_def)
qed

lemma argon2Verify_spec_error:
  assumes e: "vencoded params = Str s" and vt: "verify_type params = Inr v"
    and c: "spec_argon2_verify I (stringToUTF8 s) (core_view (spec_module I) (vpass params)) v
            = Ret (error_code err)"
  shows "fst (argon2Verify (spec_module I) h params)
         = Thrown (VerifyError (JStr (error_text err)) (Some (error_code err)))"
proof -
  obtain pwd h1 where a1: "allocateArray (spec_module I) h (vpass params) = (pwd, h1)"
    by (cases "allocateArray (spec_module I) h (vpass params)") auto
  obtain enc h2 where a2: "allocateArray (spec_module I) h1 (vencoded params) = (enc, h2)"
    by (cases "allocateArray (spec_module I) h1 (vencoded params)") auto
  have m: "argon2_error_message (spec_module I) = spec_error_message"
    by (simp add: spec_module_def)
  show ?thesis
    by (simp add: argon2Verify_def Let_def a1 a2 vt spec_verify_core [OF e a1 a2] c
        verify_result_of_def m spec_error_message_code error_text_nonempty error_code_nonzero)
qed

subsection \<open>Verifying the encoded string of a hash\<close>

lemma variant_of_int_variant_int: "variant_of_int (variant_int v) = Some v"
  by (cases v) (simp_all add: variant_of_int_def)

lemma tag_field_encode_string: "tag_field (encode_string v ver m t p sb hb) = Some (variant_tag v)"
  by (simp add: tag_field_def split_encode_string)

lemma recognized_variant_tag: "recognized_variant (variant_tag v) = Some (variant_int v)"
  by (cases v) (simp_all add: recognized_variant_def Argon2d_def Argon2i_def Argon2id_def)

lemma stringify_stringToUTF8:
  assumes "set s \<subseteq> enc_chars"
  shows "stringify (stringToUTF8 s) = s"
proof -
  have a: "\<forall>c\<in>set s. (of_char c :: nat) < 128" using assms enc_chars_ascii by blast
  have b: "\<forall>c\<in>set s. 0 < (of_char c :: nat)" using assms enc_chars_ascii by blast
  have "stringToUTF8 s = ascii_bytes s @ 0 # []" using stringToUTF8_ascii [OF a] by simp
  then show ?thesis using stringify_ascii [OF b, of "[]"] by simp
qed

lemma spec_verify_hash_of:
  assumes v: "valid_params I params"
    and ty: "variant_of_int (to_int32 ty') = Some (spec_variant params)"
  shows "spec_argon2_verify I (stringToUTF8 (spec_encoded I params)) pw ty'
         = (if compute_digest I (spec_variant params) (nat (or_default (time params) 1))
                 (nat (or_default (mem params) 1024)) (nat (or_default (parallelism params) 1))
                 pw (core_view (spec_module I) (salt params))
                 (nat (or_default (hashLen params) 24)) = spec_digest I params
            then Ret 0 else Ret (error_code VerificationMismatch))"
proof -
  let ?t = "or_default (time params) 1" and ?m = "or_default (mem params) 1024"
    and ?p = "or_default (parallelism params) 1" and ?n = "or_default (hashLen params) 24"
  from v have b: "1 \<le> ?t" "8 * ?p \<le> ?m" "?m \<le> mem_max I" "?m \<le> mem_avail I" "1 \<le> ?p"
    "?p \<le> 2 ^ 24 - 1" "4 \<le> ?n"
    by (simp_all add: valid_params_def Let_def)
  have s: "stringify (stringToUTF8 (spec_encoded I params)) = spec_encoded I params"
    by (rule stringify_stringToUTF8) (simp add: spec_encoded_def set_encode_string)
  have d: "decode_string (spec_encoded I params)
      = Some \<lparr>d_variant = spec_variant params, d_m = nat ?m, d_t = nat ?t, d_p = nat ?p,
              d_salt = core_view (spec_module I) (salt params), d_digest = spec_digest I params\<rparr>"
    by (simp add: spec_encoded_def decode_encode_string)
  have ld: "length (spec_digest I params) = nat ?n" by (simp add: spec_digest_def)
  have b0: "0 \<le> ?t" "0 \<le> ?m" "0 \<le> ?p" "0 \<le> ?n" using b by simp_all
  have val: "validate I ?t ?m ?p ?n (to_int32 ty') = None"
    unfolding validate_None using b ty by simp
  show ?thesis
    unfolding spec_argon2_verify_def s d
    using b(4) by (simp add: ld b0 val ty)
qed

lemma verify_type_of_encoded:
  "\<exists>ty'. verify_type \<lparr>vpass = pw, vencoded = Str (spec_encoded I params), vtype = None\<rparr> = Inr ty'
         \<and> variant_of_int (to_int32 ty') = Some (spec_variant params)"
proof -
  let ?vp = "\<lparr>vpass = pw, vencoded = Str (spec_encoded I params), vtype = None\<rparr>"
  obtain ty' where vt: "verify_type ?vp = Inr ty'"
    and t32: "to_int32 ty' = variant_by_precedence None (spec_encoded I params)"
    using verify_type_Str [of ?vp "spec_encoded I params"] by auto
  have "variant_by_precedence None (spec_encoded I params) = variant_int (spec_variant params)"
    unfolding spec_encoded_def
    by (simp add: variant_by_precedence_def tag_field_encode_string recognized_variant_tag)
  with t32 have "variant_of_int (to_int32 ty') = Some (spec_variant params)"
    by (simp add: variant_of_int_variant_int)
  with vt show ?thesis by blast
qed

lemma spec_digest_pass:
  "spec_digest I (params\<lparr>pass := pw\<rparr>)
   = compute_digest I (spec_variant params) (nat (or_default (time params) 1))
       (nat (or_default (mem params) 1024)) (nat (or_default (parallelism params) 1))
       (core_view (spec_module I) pw) (core_view (spec_module I) (salt params))
       (nat (or_default (hashLen params) 24))"
  by (simp add: spec_digest_def spec_variant_def)

lemma verify_other_password:
  assumes r: "fst (argon2Hash (spec_module I) h params) = Returned (HashResult d hx e)"
  shows "fst (argon2Verify (spec_module I) h' \<lparr>vpass = pw, vencoded = Str e, vtype = None\<rparr>)
         = (if spec_digest I (params\<lparr>pass := pw\<rparr>) = spec_digest I params
            then Returned VerifyUndefined
            else Thrown (VerifyError (JStr (error_text VerificationMismatch))
                           (Some (error_code VerificationMismatch))))"
proof -
  let ?vp = "\<lparr>vpass = pw, vencoded = Str e, vtype = None\<rparr>"
  from spec_hash_returned_only_if [OF r]
  have v: "valid_params I params" and e: "e = spec_encoded I params" by simp_all
  from verify_type_of_encoded [of pw I params] obtain ty' where
    vt: "verify_type ?vp = Inr ty'"
    and ty: "variant_of_int (to_int32 ty') = Some (spec_variant params)"
    unfolding e by blast
  note c = spec_verify_hash_of [OF v ty, of "core_view (spec_module I) pw", folded spec_digest_pass]
  show ?thesis
  proof (cases "spec_digest I (params\<lparr>pass := pw\<rparr>) = spec_digest I params")
    case True
    with c have "spec_argon2_verify I (stringToUTF8 e) (core_view (spec_module I) (vpass ?vp)) ty'
                 = Ret 0"
      by (simp add: e)
    from argon2Verify_spec_ok [OF _ vt this] True show ?thesis by simp
  next
    case False
    with c have "spec_argon2_verify I (stringToUTF8 e) (core_view (spec_module I) (vpass ?vp)) ty'
                 = Ret (error_code VerificationMismatch)"
      by (simp add: e)
    from argon2Verify_spec_error [OF _ vt this] False show ?thesis by simp
  qed
qed

lemma verify_own_hash:
  assumes r: "fst (argon2Hash (spec_module I) h params) = Returned (HashResult d hx e)"
  shows "fst (argon2Verify (spec_module I) h' \<lparr>vpass = pass params, vencoded = Str e, vtype = None\<rparr>)
         = Returned VerifyUndefined"
  using verify_other_password [OF r, of h' "pass params"] by simp

subsection \<open>The size of the encoded string, and the example inputs\<close>

lemma length_encode_string:
  "length (encode_string v ver m t p sb hb)
   = 15 + length (variant_tag v) + length (show_nat ver) + length (show_nat m)
     + length (show_nat t) + length (show_nat p)
     + (4 * length sb + 2) div 3 + (4 * length hb + 2) div 3"
  by (simp add: encode_string_def length_b64_encode)

lemma length_core_view_spec: "length (core_view (spec_module I) x) = nat (js_length x)"
  using spec_marshal_len [of x I] by (simp add: core_view_def)

lemma length_spec_digest: "length (spec_digest I params) = nat (or_default (hashLen params) 24)"
  by (simp add: spec_digest_def)

lemma length_variant_tag: "length (variant_tag v) \<le> 8"
  by (cases v) simp_all

lemma length_show_nat: "0 < k \<Longrightarrow> n < 10 ^ k \<Longrightarrow> length (show_nat n) \<le> k"
proof (induction k arbitrary: n)
  case 0
  then show ?case by simp
next
  case (Suc k)
  show ?case
  proof (cases "n < 10")
    case True
    then show ?thesis by (subst show_nat.simps) simp
  next
    case False
    with Suc.prems have k: "0 < k" by (cases k) auto
    from Suc.prems have "n div 10 < 10 ^ k" by (simp add: less_mult_imp_div_less mult.commute)
    with Suc.IH [OF k] have "length (show_nat (n div 10)) \<le> k" by simp
    with False show ?thesis by (subst show_nat.simps) simp
  qed
qed

lemma example_explicit: "explicit_type (example_params\<lparr>parallelism := q, hashLen := n\<rparr>)"
  by (simp add: explicit_type_def example_params_def Argon2i_def)

lemma example_valid:
  "valid_params (example_core d) (example_params\<lparr>parallelism := q, hashLen := n\<rparr>)
   \<longleftrightarrow> 4 \<le> or_default n 24 \<and> or_default n 24 < 2 ^ 32 \<and> 1 \<le> or_default q 1 \<and> or_default q 1 \<le> 128"
  by (auto simp: valid_params_def example_params_def doc_example_params_def example_core_def
      Let_def or_default_def Argon2d_def Argon2i_def)

lemma example_fits:
  assumes "4 \<le> or_default n 24" "or_default n 24 \<le> 64" "1 \<le> or_default q 1" "or_default q 1 \<le> 128"
  shows "length (spec_encoded I (example_params\<lparr>parallelism := q, hashLen := n\<rparr>)) < 512"
proof -
  let ?p = "example_params\<lparr>parallelism := q, hashLen := n\<rparr>"
  have a: "length (show_nat 19) \<le> 2" "length (show_nat 1024) \<le> 4" "length (show_nat 1) \<le> 1"
    by (rule length_show_nat; simp)+
  have b: "length (show_nat (nat (or_default q 1))) \<le> 3"
    using assms by (intro length_show_nat) simp_all
  have c: "length (core_view (spec_module I) (salt ?p)) = 8"
    by (simp add: length_core_view_spec example_params_def doc_example_params_def)
  have d: "length (spec_digest I ?p) \<le> 64"
    using assms by (simp add: length_spec_digest)
  have "length (spec_encoded I ?p)
        \<le> 15 + 8 + 2 + 4 + 1 + 3 + (4 * 8 + 2) div 3 + (4 * 64 + 2) div 3"
    unfolding spec_encoded_def length_encode_string c
    using a b d length_variant_tag [of "spec_variant ?p"]
    by (simp add: example_params_def doc_example_params_def or_default_def add_mono div_le_mono)
  then show ?thesis by simp
qed

lemma example_returns:
  assumes "4 \<le> or_default n 24" "or_default n 24 \<le> 64" "1 \<le> or_default q 1" "or_default q 1 \<le> 128"
  shows "fst (argon2Hash (spec_module (example_core d)) h
                (example_params\<lparr>parallelism := q, hashLen := n\<rparr>))
         = Returned (HashResult
             (spec_digest (example_core d) (example_params\<lparr>parallelism := q, hashLen := n\<rparr>))
             (hex_of_bytes
                (spec_digest (example_core d) (example_params\<lparr>parallelism := q, hashLen := n\<rparr>)))
             (spec_encoded (example_core d) (example_params\<lparr>parallelism := q, hashLen := n\<rparr>)))"
proof -
  have v: "valid_params (example_core d) (example_params\<lparr>parallelism := q, hashLen := n\<rparr>)"
    unfolding example_valid using assms by simp
  show ?thesis
    by (rule spec_hash_returns [OF v example_explicit example_fits [OF assms]])
qed

lemma example_params_updates:
  "example_params\<lparr>parallelism := None, hashLen := None\<rparr> = example_params"
  "example_params\<lparr>parallelism := None, hashLen := n\<rparr> = example_params\<lparr>hashLen := n\<rparr>"
  "example_params\<lparr>parallelism := q, hashLen := None\<rparr> = example_params\<lparr>parallelism := q\<rparr>"
  by (simp_all add: example_params_def doc_example_params_def)

lemma example_returns_default:
  "fst (argon2Hash (spec_module (example_core d)) h example_params)
   = Returned (HashResult (spec_digest (example_core d) example_params)
                (hex_of_bytes (spec_digest (example_core d) example_params))
                (spec_encoded (example_core d) example_params))"
  using example_returns [where q = None and n = None and d = d and h = h]
  by (simp add: or_default_def example_params_updates)

lemma example_digest_value:
  "spec_digest example_impl example_params
   = [246, 247, 248, 249, 250, 251, 252, 253, 254, 255, 0, 1, 2, 3, 4, 5, 6, 7, 8, 9, 10, 11,
      12, 13]"
  by code_simp

lemma example_hex_value:
  "hex_of_bytes [246, 247, 248, 249, 250, 251, 252, 253, 254, 255, 0, 1, 2, 3, 4, 5, 6, 7, 8,
      9, 10, 11, 12, 13 :: byte]
   = ''f6f7f8f9fafbfcfdfeff000102030405060708090a0b0c0d''"
  by code_simp

lemma example_encoded_value:
  "spec_encoded example_impl example_params
   = ''$argon2i$v=19$m=1024,t=1,p=1$c29tZXNhbHQ$9vf4+fr7/P3+/wABAgMEBQYHCAkKCwwN''"
  by code_simp

lemma example_hash:
  "fst (argon2Hash (spec_module example_impl) h example_params)
   = Returned (HashResult
       [246, 247, 248, 249, 250, 251, 252, 253, 254, 255, 0, 1, 2, 3, 4, 5, 6, 7, 8, 9, 10, 11,
        12, 13]
       ''f6f7f8f9fafbfcfdfeff000102030405060708090a0b0c0d''
       ''$argon2i$v=19$m=1024,t=1,p=1$c29tZXNhbHQ$9vf4+fr7/P3+/wABAgMEBQYHCAkKCwwN'')"
proof -
  have "fst (argon2Hash (spec_module example_impl) h example_params)
   = Returned (HashResult (spec_digest example_impl example_params)
                (hex_of_bytes (spec_digest example_impl example_params))
                (spec_encoded example_impl example_params))"
    unfolding example_impl_def by (rule example_returns_default)
  then show ?thesis
    unfolding example_digest_value example_hex_value example_encoded_value .
qed

subsection \<open>Failing parameter validation\<close>


lemma validate_digest_fn [simp]: "validate (I\<lparr>digest_fn := f\<rparr>) = validate I"
  by (intro ext) (simp add: validate_def)


subsection \<open>Strings that are not base64\<close>

lemma b64_val_None: "b64_val c = None \<longleftrightarrow> c \<notin> set b64_alphabet"
  unfolding b64_val_def by (rule index_of_None)

lemma b64_val_in: "c \<in> set b64_alphabet \<longleftrightarrow> (\<exists>v. b64_val c = Some v)"
  using b64_val_None [of c] by auto

lemma b64_val_low4: "b64_val c = Some v \<Longrightarrow> v mod 16 = 0 \<longleftrightarrow> c \<in> set ''AQgw''"
  by (auto simp: b64_val_def b64_alphabet_def split: if_splits)

lemma b64_val_low2: "b64_val c = Some v \<Longrightarrow> v mod 4 = 0 \<longleftrightarrow> c \<in> set ''AEIMQUYcgkosw048''"
  by (auto simp: b64_val_def b64_alphabet_def split: if_splits)

lemma low4_alphabet: "c \<in> set ''AQgw'' \<Longrightarrow> c \<in> set b64_alphabet"
  by (auto simp: b64_alphabet_def)

lemma low2_alphabet: "c \<in> set ''AEIMQUYcgkosw048'' \<Longrightarrow> c \<in> set b64_alphabet"
  by (auto simp: b64_alphabet_def)

lemma b64_decode_None_iff: "b64_decode s = None \<longleftrightarrow> \<not> is_base64 s"
proof (induction s rule: is_base64.induct)
  case 1
  show ?case by simp
next
  case (2 c1)
  show ?case by simp
next
  case (3 c1 c2)
  show ?case
  proof (cases "b64_val c1")
    case None
    then show ?thesis by (simp add: b64_val_None [symmetric])
  next
    case s1: (Some v1)
    then have m1: "c1 \<in> set b64_alphabet" by (rule b64_val_Some_mem)
    show ?thesis
    proof (cases "b64_val c2")
      case None
      then have "c2 \<notin> set ''AQgw''" using low4_alphabet [of c2] b64_val_None [of c2] by blast
      with None s1 show ?thesis by simp
    next
      case (Some v2)
      from b64_val_low4 [OF Some] s1 Some m1 show ?thesis by simp
    qed
  qed
next
  case (4 c1 c2 c3)
  show ?case
  proof (cases "b64_val c1")
    case None
    then show ?thesis by (simp add: b64_val_None [symmetric])
  next
    case s1: (Some v1)
    then have m1: "c1 \<in> set b64_alphabet" by (rule b64_val_Some_mem)
    show ?thesis
    proof (cases "b64_val c2")
      case None
      with s1 show ?thesis by (simp add: b64_val_None [symmetric])
    next
      case s2: (Some v2)
      then have m2: "c2 \<in> set b64_alphabet" by (rule b64_val_Some_mem)
      show ?thesis
      proof (cases "b64_val c3")
        case None
        then have "c3 \<notin> set ''AEIMQUYcgkosw048''"
          using low2_alphabet [of c3] b64_val_None [of c3] by blast
        with None s1 s2 show ?thesis by simp
      next
        case (Some v3)
        from b64_val_low2 [OF Some] s1 s2 Some m1 m2 show ?thesis by simp
      qed
    qed
  qed
next
  case (5 c1 c2 c3 c4 rest)
  have "b64_decode (c1 # c2 # c3 # c4 # rest) = None
        \<longleftrightarrow> b64_val c1 = None \<or> b64_val c2 = None \<or> b64_val c3 = None \<or> b64_val c4 = None
            \<or> b64_decode rest = None"
    by (auto split: option.splits)
  then show ?case using 5 by (simp add: b64_val_None)
qed


lemma is_base64_encode: "is_base64 (b64_encode bs)"
  using b64_decode_None_iff [of "b64_encode bs"] by (simp add: b64_decode_encode)

subsection \<open>Malformed encoded strings\<close>

lemma of_char_lt: "(of_char c :: nat) < 256"
  by simp
































subsection \<open>Calls of hash that leave before the module is called\<close>

lemma argon2Hash_RangeError:
  assumes "\<not> (0 \<le> or_default (hashLen params) 24 \<and> or_default (hashLen params) 24 < 2 ^ 32)"
  shows "fst (argon2Hash M h params) = Uncaught RangeError"
    and "live (snd (argon2Hash M h params))
         = [(brk h + max 1 (length (marshalled M (pass params))),
             length (marshalled M (salt params))),
            (brk h, length (marshalled M (pass params)))] @ live h"
proof -
  from hash_setup_RangeError [OF assms, of M h] obtain h2 where
    s: "hash_setup M h params = (Inl RangeError, h2)"
    and l: "live h2 = [(brk h + max 1 (length (marshalled M (pass params))),
                        length (marshalled M (salt params))),
                       (brk h, length (marshalled M (pass params)))] @ live h"
    by blast
  from argon2Hash_uncaught [OF s] l
  show "fst (argon2Hash M h params) = Uncaught RangeError"
    and "live (snd (argon2Hash M h params))
         = [(brk h + max 1 (length (marshalled M (pass params))),
             length (marshalled M (salt params))),
            (brk h, length (marshalled M (pass params)))] @ live h"
    by simp_all
qed

lemma argon2Hash_ReferenceError:
  assumes "0 \<le> or_default (hashLen params) 24" "or_default (hashLen params) 24 < 2 ^ 32"
    and "type params = None \<or> type params = Some 0"
  shows "fst (argon2Hash M h params) = Uncaught ReferenceError"
    and "live (snd (argon2Hash M h params))
         = [(brk h + max 1 (length (marshalled M (pass params)))
               + max 1 (length (marshalled M (salt params)))
               + max 1 (nat (or_default (hashLen params) 24)), 512),
            (brk h + max 1 (length (marshalled M (pass params)))
               + max 1 (length (marshalled M (salt params))),
             nat (or_default (hashLen params) 24)),
            (brk h + max 1 (length (marshalled M (pass params))),
             length (marshalled M (salt params))),
            (brk h, length (marshalled M (pass params)))] @ live h"
proof -
  from hash_setup_ReferenceError [OF assms, of M h] obtain h4 where
    s: "hash_setup M h params = (Inl ReferenceError, h4)"
    and l: "live h4
         = [(brk h + max 1 (length (marshalled M (pass params)))
               + max 1 (length (marshalled M (salt params)))
               + max 1 (nat (or_default (hashLen params) 24)), 512),
            (brk h + max 1 (length (marshalled M (pass params)))
               + max 1 (length (marshalled M (salt params))),
             nat (or_default (hashLen params) 24)),
            (brk h + max 1 (length (marshalled M (pass params))),
             length (marshalled M (salt params))),
            (brk h, length (marshalled M (pass params)))] @ live h"
    by blast
  from argon2Hash_uncaught [OF s] l
  show "fst (argon2Hash M h params) = Uncaught ReferenceError"
    and "live (snd (argon2Hash M h params))
         = [(brk h + max 1 (length (marshalled M (pass params)))
               + max 1 (length (marshalled M (salt params)))
               + max 1 (nat (or_default (hashLen params) 24)), 512),
            (brk h + max 1 (length (marshalled M (pass params)))
               + max 1 (length (marshalled M (salt params))),
             nat (or_default (hashLen params) 24)),
            (brk h + max 1 (length (marshalled M (pass params))),
             length (marshalled M (salt params))),
            (brk h, length (marshalled M (pass params)))] @ live h"
    by simp_all
qed

subsection \<open>The numeric defaults, and the values the module is called with\<close>

lemma hash_numeric_defaults:
  "argon2Hash M h (with_numeric_defaults params) = argon2Hash M h params"
  by (simp add: argon2Hash_def hash_setup_with_defaults)

lemma hash_core_call:
  assumes s: "hash_setup M h params = (Inr l, h4)"
  shows "hash_core M h4 l
         = argon2_hash M (or_default (time params) 1) (or_default (mem params) 1024)
             (or_default (parallelism params) 1)
             (read_bytes h4 (l_pwd l) (nat (js_length (pass params))))
             (read_bytes h4 (l_salt l) (nat (js_length (salt params))))
             (or_default (hashLen params) 24) 512 (l_argon2Type l) 0x13"
    and "type params = Some (l_argon2Type l)"
  using hash_setup_locals [OF s] by (simp_all add: hash_core_def)

subsection \<open>An encoded string that does not fit the buffer\<close>

lemma spec_hash_encoding_fail:
  assumes v: "valid_params I params" and x: "explicit_type params"
    and nf: "\<not> length (spec_encoded I params) < 512"
  shows "fst (argon2Hash (spec_module I) h params)
         = Thrown (HashError (JStr (error_text EncodingFail)) (Some (error_code EncodingFail)))"
proof -
  from v have n: "0 \<le> or_default (hashLen params) 24 \<and> or_default (hashLen params) 24 < 2 ^ 32"
    by (simp add: valid_params_def Let_def)
  with x obtain l h4 where s: "hash_setup (spec_module I) h params = (Inr l, h4)"
    using hash_setup_total [of "spec_module I" h params] by blast
  have c: "hash_core (spec_module I) h4 l = Ret (error_code EncodingFail, [], [])"
    using v nf unfolding spec_hash_core [OF s] valid_params_iff by simp
  have m: "argon2_error_message (spec_module I) (Some (error_code EncodingFail))
           = Ret (error_text EncodingFail)"
    using spec_error_message_code [of EncodingFail] by (simp add: spec_module_def)
  show ?thesis
    using argon2Hash_failure_msg [OF s c error_code_nonzero m] by (simp add: error_text_nonempty)
qed

lemma spec_hash_returns_iff:
  "(\<exists>r. fst (argon2Hash (spec_module I) h params) = Returned r)
   \<longleftrightarrow> valid_params I params \<and> explicit_type params \<and> length (spec_encoded I params) < 512"
proof
  assume "valid_params I params \<and> explicit_type params \<and> length (spec_encoded I params) < 512"
  then show "\<exists>r. fst (argon2Hash (spec_module I) h params) = Returned r"
    using spec_hash_returns [of I params h] by simp
next
  assume "\<exists>r. fst (argon2Hash (spec_module I) h params) = Returned r"
  then obtain r where r: "fst (argon2Hash (spec_module I) h params) = Returned r" by blast
  show "valid_params I params \<and> explicit_type params \<and> length (spec_encoded I params) < 512"
  proof (cases r)
    case (HashResult d hx e)
    with r spec_hash_returned_only_if [of I h params d hx e] show ?thesis by simp
  next
    case (HashError m c)
    with r have p: "payload (fst (argon2Hash (spec_module I) h params)) = Some (HashError m c)"
      by simp
    from argon2Hash_payload_setup [OF p] obtain l h4 where
      s: "hash_setup (spec_module I) h params = (Inr l, h4)" by blast
    from spec_hash_core_never_throws [OF s] obtain res ho eo where
      c: "hash_core (spec_module I) h4 l = Ret (res, ho, eo)" by blast
    show ?thesis
    proof (cases "res = 0")
      case True
      with c argon2Hash_success [OF s, of ho eo] r HashError show ?thesis by simp
    next
      case False
      have "res = 0 \<or> (\<exists>e. res = error_code e)"
        using c unfolding spec_hash_core [OF s]
        by (auto split: option.splits if_splits simp del: error_code.simps)
      with False obtain e where e: "res = error_code e" by blast
      have m: "argon2_error_message (spec_module I) (Some res) = Ret (error_text e)"
        unfolding e using spec_error_message_code [of e] by (simp add: spec_module_def)
      from argon2Hash_failure_msg [OF s c False m] r show ?thesis
        by (simp add: error_text_nonempty)
    qed
  qed
qed

lemma example_long_digest:
  "valid_params (example_core d) (example_params\<lparr>hashLen := Some 400\<rparr>)"
  "explicit_type (example_params\<lparr>hashLen := Some 400\<rparr>)"
  "\<not> length (spec_encoded I (example_params\<lparr>hashLen := Some 400\<rparr>)) < 512"
proof -
  show "valid_params (example_core d) (example_params\<lparr>hashLen := Some 400\<rparr>)"
    using example_valid [where q = None and n = "Some 400" and d = d]
    by (simp add: or_default_def example_params_updates)
  show "explicit_type (example_params\<lparr>hashLen := Some 400\<rparr>)"
    using example_explicit [where q = None and n = "Some 400"]
    by (simp add: example_params_updates)
  have "length (spec_digest I (example_params\<lparr>hashLen := Some 400\<rparr>)) = 400"
    by (simp add: length_spec_digest or_default_def)
  then show "\<not> length (spec_encoded I (example_params\<lparr>hashLen := Some 400\<rparr>)) < 512"
    unfolding spec_encoded_def length_encode_string by simp
qed


subsection \<open>An encoded string followed by a character of code 0\<close>








subsection \<open>A password with a character of two bytes\<close>

lemma core_view_spec_Str: "core_view (spec_module I) (Str s) = take (length s) (stringToUTF8 s)"
  by (simp add: core_view_def marshalled_def spec_module_def)

lemma two_byte_password_view:
  "core_view (spec_module I) (Str [CHR 0xE9, c]) = [0xC3, 0xA9]"
proof -
  have "utf8_unit (CHR 0xE9) = [0xC3, 0xA9]" by code_simp
  then show ?thesis
    unfolding core_view_spec_Str stringToUTF8_def by simp
qed

lemma two_byte_password_digest:
  "spec_digest I (params\<lparr>pass := Str [CHR 0xE9, c]\<rparr>)
   = spec_digest I (params\<lparr>pass := Str [CHR 0xE9, c']\<rparr>)"
  by (simp only: spec_digest_pass two_byte_password_view)

subsection \<open>What a failed validation depends on\<close>



section \<open>The claims\<close>



text \<open>
  C10. The claim: a call of hash in which time, mem, parallelism, hashLen or type is omitted
  or 0 uses the defaults 1, 1024, 1, 24 and Argon2d, and the version passed to the core is
  always 0x13. The code does so for the four numbers and the version
  (\<open>hash_numeric_defaults\<close>, \<open>hash_core_call\<close>), but not for the type: line 68 reads
  \<^verbatim>\<open>params.type || argon2.ArgonType.Argon2d\<close>, and the file binds no identifier \<^verbatim>\<open>argon2\<close>.
  A call with the type omitted or 0 throws a ReferenceError, whatever the module, the heap
  and the other parameters (the output length being an array length, or line 64 has thrown
  before): the module is not called, no default type is used, and the four buffers
  allocated on lines 60 to 66 stay allocated.
\<close>

theorem hash_type_default_unbound:
  "type params = None \<or> type params = Some 0 \<Longrightarrow>
   0 \<le> or_default (hashLen params) 24 \<Longrightarrow> or_default (hashLen params) 24 < 2 ^ 32 \<Longrightarrow>
   fst (argon2Hash M h params) = Uncaught ReferenceError
   \<and> live (snd (argon2Hash M h params))
       = [(brk h + max 1 (length (marshalled M (pass params)))
             + max 1 (length (marshalled M (salt params)))
             + max 1 (nat (or_default (hashLen params) 24)), 512),
          (brk h + max 1 (length (marshalled M (pass params)))
             + max 1 (length (marshalled M (salt params))),
           nat (or_default (hashLen params) 24)),
          (brk h + max 1 (length (marshalled M (pass params))),
           length (marshalled M (salt params))),
          (brk h, length (marshalled M (pass params)))] @ live h"
  using argon2Hash_ReferenceError [of params M h] by simp

theorem hash_type_default_unbound_witness:
  "type doc_example_params = None
   \<and> fst (argon2Hash (spec_module example_impl) example_heap doc_example_params)
       = Uncaught ReferenceError
   \<and> live (snd (argon2Hash (spec_module example_impl) example_heap doc_example_params))
       = [(50, 512), (26, 24), (17, 9), (8, 9)]
   \<and> type (doc_example_params\<lparr>type := Some Argon2d\<rparr>) = Some 0
   \<and> fst (argon2Hash (spec_module example_impl) example_heap
            (doc_example_params\<lparr>type := Some Argon2d\<rparr>))
       = Uncaught ReferenceError"
proof -
  have l: "length (stringToUTF8 ''password'') = 9" "length (stringToUTF8 ''somesalt'') = 9"
    by code_simp+
  have a: "type doc_example_params = None \<or> type doc_example_params = Some 0"
    "0 \<le> or_default (hashLen doc_example_params) 24"
    "or_default (hashLen doc_example_params) 24 < 2 ^ 32"
    by (simp_all add: doc_example_params_def or_default_def)
  let ?q = "doc_example_params\<lparr>type := Some Argon2d\<rparr>"
  have b: "type ?q = None \<or> type ?q = Some 0"
    "0 \<le> or_default (hashLen ?q) 24" "or_default (hashLen ?q) 24 < 2 ^ 32"
    by (simp_all add: doc_example_params_def or_default_def Argon2d_def)
  from hash_type_default_unbound [OF a, of "spec_module example_impl" example_heap]
  have 1: "fst (argon2Hash (spec_module example_impl) example_heap doc_example_params)
       = Uncaught ReferenceError"
    and 2: "live (snd (argon2Hash (spec_module example_impl) example_heap doc_example_params))
       = [(50, 512), (26, 24), (17, 9), (8, 9)]"
    by (simp_all add: doc_example_params_def or_default_def example_heap_def marshalled_def
        spec_module_def l)
  from hash_type_default_unbound [OF b, of "spec_module example_impl" example_heap]
  have 3: "fst (argon2Hash (spec_module example_impl) example_heap ?q) = Uncaught ReferenceError"
    by simp
  from a(1) b(1) 1 2 3 show ?thesis
    by (simp add: doc_example_params_def Argon2d_def)
qed

text \<open>
  C6. When a call of hash fails, because the module returns a result code other than 0 or
  throws, the object that hash returns or throws is \<^verbatim>\<open>{ message, code }\<close>, with the module's
  code, and holds no digest bytes, hex string or encoded string. An object with a digest is
  only ever returned, never thrown, and only when the module returned 0; its bytes are those
  the module wrote.
\<close>

theorem hash_failure_no_digest:
  "(\<forall>l h4. hash_setup M h params = (Inr l, h4) \<and> (\<forall>ho eo. hash_core M h4 l \<noteq> Ret (0, ho, eo)) \<longrightarrow>
      (\<exists>m c. (fst (argon2Hash M h params) = Returned (HashError m c)
               \<or> fst (argon2Hash M h params) = Thrown (HashError m c))
            \<and> c = (case hash_core M h4 l of Ret (res, ho, eo) \<Rightarrow> Some res | Threw x \<Rightarrow> None)))
   \<and> (\<forall>d hx e. payload (fst (argon2Hash M h params)) = Some (HashResult d hx e) \<longrightarrow>
        fst (argon2Hash M h params) = Returned (HashResult d hx e)
        \<and> (\<exists>l h4 ho eo. hash_setup M h params = (Inr l, h4) \<and> hash_core M h4 l = Ret (0, ho, eo)
              \<and> d = written (nat (l_hashlen l)) ho))"
proof (rule conjI; intro allI impI)
  fix l h4
  assume a: "hash_setup M h params = (Inr l, h4) \<and> (\<forall>ho eo. hash_core M h4 l \<noteq> Ret (0, ho, eo))"
  then have s: "hash_setup M h params = (Inr l, h4)" by simp
  show "\<exists>m c. (fst (argon2Hash M h params) = Returned (HashError m c)
               \<or> fst (argon2Hash M h params) = Thrown (HashError m c))
            \<and> c = (case hash_core M h4 l of Ret (res, ho, eo) \<Rightarrow> Some res | Threw x \<Rightarrow> None)"
  proof (cases "hash_core M h4 l")
    case (Threw x)
    from argon2Hash_threw [OF s Threw] show ?thesis by (auto simp: Threw)
  next
    case (Ret t)
    obtain res ho eo where t: "t = (res, ho, eo)" by (cases t) auto
    with a Ret have "res \<noteq> 0" by auto
    from argon2Hash_failure [OF s Ret [unfolded t] this] show ?thesis by (auto simp: Ret t)
  qed
next
  fix d hx e
  assume "payload (fst (argon2Hash M h params)) = Some (HashResult d hx e)"
  from argon2Hash_HashResult [OF this]
  show "fst (argon2Hash M h params) = Returned (HashResult d hx e)
        \<and> (\<exists>l h4 ho eo. hash_setup M h params = (Inr l, h4) \<and> hash_core M h4 l = Ret (0, ho, eo)
              \<and> d = written (nat (l_hashlen l)) ho)"
    by blast
qed

theorem hash_failure_no_digest_witness:
  "(\<exists>l h4. hash_setup (spec_module example_impl) example_heap (example_params\<lparr>hashLen := Some 2\<rparr>)
             = (Inr l, h4)
      \<and> type (example_params\<lparr>hashLen := Some 2\<rparr>) = Some 1
      \<and> (\<forall>ho eo. hash_core (spec_module example_impl) h4 l \<noteq> Ret (0, ho, eo))
      \<and> fst (argon2Hash (spec_module example_impl) example_heap
               (example_params\<lparr>hashLen := Some 2\<rparr>))
          = Thrown (HashError (JStr ''Output is too short'') (Some (- 2))))
   \<and> type example_params = Some 1
   \<and> payload (fst (argon2Hash (spec_module example_impl) example_heap example_params))
       = Some (HashResult
           [246, 247, 248, 249, 250, 251, 252, 253, 254, 255, 0, 1, 2, 3, 4, 5, 6, 7, 8, 9, 10,
            11, 12, 13]
           ''f6f7f8f9fafbfcfdfeff000102030405060708090a0b0c0d''
           ''$argon2i$v=19$m=1024,t=1,p=1$c29tZXNhbHQ$9vf4+fr7/P3+/wABAgMEBQYHCAkKCwwN'')
   \<and> fst (argon2Hash (spec_module example_impl) example_heap example_params)
       = Returned (HashResult
           [246, 247, 248, 249, 250, 251, 252, 253, 254, 255, 0, 1, 2, 3, 4, 5, 6, 7, 8, 9, 10,
            11, 12, 13]
           ''f6f7f8f9fafbfcfdfeff000102030405060708090a0b0c0d''
           ''$argon2i$v=19$m=1024,t=1,p=1$c29tZXNhbHQ$9vf4+fr7/P3+/wABAgMEBQYHCAkKCwwN'')"
proof -
  let ?M = "spec_module example_impl"
  let ?q = "example_params\<lparr>hashLen := Some 2\<rparr>"
  let ?r = "HashResult
           [246, 247, 248, 249, 250, 251, 252, 253, 254, 255, 0, 1, 2, 3, 4, 5, 6, 7, 8, 9, 10,
            11, 12, 13]
           ''f6f7f8f9fafbfcfdfeff000102030405060708090a0b0c0d''
           ''$argon2i$v=19$m=1024,t=1,p=1$c29tZXNhbHQ$9vf4+fr7/P3+/wABAgMEBQYHCAkKCwwN''"
  have t: "type ?q = Some 1" "type example_params = Some 1"
    by (simp_all add: example_params_def Argon2i_def)
  have "0 \<le> or_default (hashLen ?q) 24 \<and> or_default (hashLen ?q) 24 < 2 ^ 32
        \<and> explicit_type ?q"
    by (simp add: or_default_def explicit_type_def example_params_def Argon2i_def)
  then obtain l h4 where s: "hash_setup ?M example_heap ?q = (Inr l, h4)"
    using hash_setup_total [of ?M example_heap ?q] by blast
  have c: "hash_core ?M h4 l = Ret (- 2, [], [])"
    unfolding spec_hash_core [OF s]
    by (simp add: validate_def or_default_def example_params_def doc_example_params_def)
  then have n: "\<forall>ho eo. hash_core ?M h4 l \<noteq> Ret (0, ho, eo)" by simp
  have msg: "argon2_error_message ?M (Some (- 2)) = Ret ''Output is too short''"
    using spec_error_message_code [of OutputTooShort] by (simp add: spec_module_def)
  from hash_failure_no_digest [of ?M example_heap ?q] s n c
  obtain m where "fst (argon2Hash ?M example_heap ?q) = Returned (HashError m (Some (- 2)))
            \<or> fst (argon2Hash ?M example_heap ?q) = Thrown (HashError m (Some (- 2)))"
    by auto
  with argon2Hash_failure_msg [OF s c _ msg]
  have 1: "fst (argon2Hash ?M example_heap ?q)
           = Thrown (HashError (JStr ''Output is too short'') (Some (- 2)))"
    by simp
  have p: "payload (fst (argon2Hash ?M example_heap example_params)) = Some ?r"
    by (simp add: example_hash)
  from hash_failure_no_digest [of ?M example_heap example_params] p
  have 2: "fst (argon2Hash ?M example_heap example_params) = Returned ?r"
    by blast
  from s t n 1 p 2 show ?thesis by blast
qed

text \<open>
  C8. The result of a successful call of hash holds the raw digest bytes (what the module
  wrote to the hash buffer), the hex string and the encoded string (what the module wrote to
  the encoded buffer, read as a string). The hex string is the encoding of the raw digest
  with two lowercase hex digits a byte, so its length is twice the output length that was
  asked for (24 when it is omitted or 0).
\<close>

theorem hash_result_hex:
  "payload (fst (argon2Hash M h params)) = Some (HashResult d hx e) \<Longrightarrow>
     hx = hex_of_bytes d \<and> length hx = 2 * length d
     \<and> int (length d) = or_default (hashLen params) 24
     \<and> (\<exists>l h4 ho eo. hash_setup M h params = (Inr l, h4) \<and> hash_core M h4 l = Ret (0, ho, eo)
           \<and> d = written (length d) ho \<and> e = Pointer_stringify M (written 512 eo))"
proof -
  assume "payload (fst (argon2Hash M h params)) = Some (HashResult d hx e)"
  from argon2Hash_HashResult [OF this] obtain l h4 ho eo where
    s: "hash_setup M h params = (Inr l, h4)" and c: "hash_core M h4 l = Ret (0, ho, eo)"
    and d: "d = written (nat (l_hashlen l)) ho" and hx: "hx = hex_of_bytes d"
    and e: "e = Pointer_stringify M (written 512 eo)"
    by blast
  have n: "0 \<le> l_hashlen l" "l_hashlen l = or_default (hashLen params) 24"
    using hash_setup_Inr(1,9) [OF s] by simp_all
  have ld: "length d = nat (l_hashlen l)" by (simp add: d)
  from s c d e hx ld n show ?thesis
    by (auto simp: length_hex_of_bytes)
qed

theorem hash_result_hex_witness:
  "type example_params = Some 1
   \<and> payload (fst (argon2Hash (spec_module example_impl) example_heap example_params))
     = Some (HashResult
         [246, 247, 248, 249, 250, 251, 252, 253, 254, 255, 0, 1, 2, 3, 4, 5, 6, 7, 8, 9, 10,
          11, 12, 13]
         ''f6f7f8f9fafbfcfdfeff000102030405060708090a0b0c0d''
         ''$argon2i$v=19$m=1024,t=1,p=1$c29tZXNhbHQ$9vf4+fr7/P3+/wABAgMEBQYHCAkKCwwN'')
   \<and> ''f6f7f8f9fafbfcfdfeff000102030405060708090a0b0c0d''
     = hex_of_bytes [246, 247, 248, 249, 250, 251, 252, 253, 254, 255, 0, 1, 2, 3, 4, 5, 6, 7,
         8, 9, 10, 11, 12, 13]
   \<and> length ''f6f7f8f9fafbfcfdfeff000102030405060708090a0b0c0d'' = 48
   \<and> or_default (hashLen example_params) 24 = 24"
proof -
  let ?d = "[246, 247, 248, 249, 250, 251, 252, 253, 254, 255, 0, 1, 2, 3, 4, 5, 6, 7, 8, 9, 10,
          11, 12, 13] :: byte list"
  have t: "type example_params = Some 1" by (simp add: example_params_def Argon2i_def)
  have r: "payload (fst (argon2Hash (spec_module example_impl) example_heap example_params))
     = Some (HashResult ?d ''f6f7f8f9fafbfcfdfeff000102030405060708090a0b0c0d''
         ''$argon2i$v=19$m=1024,t=1,p=1$c29tZXNhbHQ$9vf4+fr7/P3+/wABAgMEBQYHCAkKCwwN'')"
    by (simp add: example_hash)
  from hash_result_hex [OF r]
  have h: "''f6f7f8f9fafbfcfdfeff000102030405060708090a0b0c0d'' = hex_of_bytes ?d"
    and n: "int (length ?d) = or_default (hashLen example_params) 24"
    by blast+
  from n have n': "or_default (hashLen example_params) 24 = 24" by simp
  have l: "length ''f6f7f8f9fafbfcfdfeff000102030405060708090a0b0c0d'' = 48" by simp
  show ?thesis by (rule conjI t r h l n')+
qed

text \<open>
  C7. On every exit path of hash all four buffers are released, and on every exit path of
  verify both. The code does so on the paths that reach the call of the module
  (\<open>hash_releases_all\<close>, \<open>verify_releases_all\<close>), but not on the paths that leave the
  function before: an output length that is no array length makes \<^verbatim>\<open>new Array\<close> throw a
  RangeError when the password and the salt are already allocated, and an encoded hash given
  as an array, with no type, makes \<^verbatim>\<open>split\<close> throw a TypeError when both buffers of verify are
  allocated. The theorem evaluates the code on these two inputs: the blocks are still live.
  (A third such path is a call of hash with the type omitted or 0, which leaves all four
  buffers allocated: \<open>argon2Hash_ReferenceError\<close>.)
\<close>

theorem buffers_leak_on_uncaught_error:
  "fst (argon2Hash M h (params\<lparr>hashLen := Some (- 1)\<rparr>)) = Uncaught RangeError
   \<and> live (snd (argon2Hash M h (params\<lparr>hashLen := Some (- 1)\<rparr>)))
       = [(brk h + max 1 (length (marshalled M (pass params))), length (marshalled M (salt params))),
          (brk h, length (marshalled M (pass params)))] @ live h
   \<and> fst (argon2Verify M h \<lparr>vpass = pw, vencoded = Arr a, vtype = None\<rparr>) = Uncaught TypeError
   \<and> live (snd (argon2Verify M h \<lparr>vpass = pw, vencoded = Arr a, vtype = None\<rparr>))
       = [(brk h + max 1 (length (marshalled M pw)), length a),
          (brk h, length (marshalled M pw))] @ live h"
proof -
  let ?p = "params\<lparr>hashLen := Some (- 1)\<rparr>"
  have n: "\<not> (0 \<le> or_default (hashLen ?p) 24 \<and> or_default (hashLen ?p) 24 < 2 ^ 32)"
    by (simp add: or_default_def)
  from argon2Hash_RangeError [OF n, of M h]
  have 1: "fst (argon2Hash M h ?p) = Uncaught RangeError"
    and 2: "live (snd (argon2Hash M h ?p))
       = [(brk h + max 1 (length (marshalled M (pass params))), length (marshalled M (salt params))),
          (brk h, length (marshalled M (pass params)))] @ live h"
    by simp_all
  let ?v = "\<lparr>vpass = pw, vencoded = Arr a, vtype = None\<rparr>"
  have t: "verify_type ?v = Inl TypeError" by (simp add: verify_type_def)
  from verify_uncaught [OF t, of M h] 1 2 show ?thesis
    by (simp add: marshalled_def)
qed

text \<open>
  C1. The claim: for every password, salt and valid parameter combination, the variant
  included, verify called with that password and with the encoded string that hash returned
  succeeds. For the variant Argon2d the code returns no encoded string at all: with the type
  omitted (the documented default; the call of the example in the doc comment) or passed as
  0, line 68 evaluates the unbound identifier \<^verbatim>\<open>argon2\<close> and hash throws a ReferenceError,
  for every module. A second valid combination without an encoded string is an output
  length of 400: the encoded string does not fit the 512 bytes of lines 66 and 67, and over
  the module modelled from the spec hash throws the error of a failed encoding. With the
  type Argon2i the example call returns, and verify accepts what it returned, under every
  digest function. In general hash returns exactly for the valid combinations with a type
  that is passed and not 0 and with an encoded string of less than 512 characters
  (\<open>spec_hash_returns_iff\<close>), and verify accepts every encoded string that hash returned
  (\<open>verify_own_hash\<close>).
\<close>

theorem hash_throws_for_valid_params:
  "valid_params (example_core d) doc_example_params
   \<and> fst (argon2Hash M h doc_example_params) = Uncaught ReferenceError
   \<and> valid_params (example_core d) (doc_example_params\<lparr>type := Some Argon2d\<rparr>)
   \<and> fst (argon2Hash M h (doc_example_params\<lparr>type := Some Argon2d\<rparr>)) = Uncaught ReferenceError
   \<and> valid_params (example_core d) (example_params\<lparr>hashLen := Some 400\<rparr>)
   \<and> fst (argon2Hash (spec_module (example_core d)) h (example_params\<lparr>hashLen := Some 400\<rparr>))
       = Thrown (HashError (JStr ''Encoding failed'') (Some (- 31)))
   \<and> valid_params (example_core d) example_params
   \<and> (\<exists>dg hx e. fst (argon2Hash (spec_module (example_core d)) h example_params)
                    = Returned (HashResult dg hx e)
         \<and> fst (argon2Verify (spec_module (example_core d)) h'
                  \<lparr>vpass = Str ''password'', vencoded = Str e, vtype = None\<rparr>)
             = Returned VerifyUndefined)"
proof -
  let ?q = "doc_example_params\<lparr>type := Some Argon2d\<rparr>"
  have v1: "valid_params (example_core d) doc_example_params"
    by (simp add: valid_params_def doc_example_params_def example_core_def Let_def
        or_default_def Argon2d_def)
  have v2: "valid_params (example_core d) ?q"
    by (simp add: valid_params_def doc_example_params_def example_core_def Let_def
        or_default_def Argon2d_def)
  have a: "0 \<le> or_default (hashLen doc_example_params) 24"
    "or_default (hashLen doc_example_params) 24 < 2 ^ 32"
    "type doc_example_params = None \<or> type doc_example_params = Some 0"
    by (simp_all add: doc_example_params_def or_default_def)
  have b: "0 \<le> or_default (hashLen ?q) 24" "or_default (hashLen ?q) 24 < 2 ^ 32"
    "type ?q = None \<or> type ?q = Some 0"
    by (simp_all add: doc_example_params_def or_default_def Argon2d_def)
  have r1: "fst (argon2Hash M h doc_example_params) = Uncaught ReferenceError"
    by (rule argon2Hash_ReferenceError(1) [OF a])
  have r2: "fst (argon2Hash M h ?q) = Uncaught ReferenceError"
    by (rule argon2Hash_ReferenceError(1) [OF b])
  have r3: "fst (argon2Hash (spec_module (example_core d)) h (example_params\<lparr>hashLen := Some 400\<rparr>))
       = Thrown (HashError (JStr ''Encoding failed'') (Some (- 31)))"
    using spec_hash_encoding_fail [OF example_long_digest(1) [of d] example_long_digest(2)
        example_long_digest(3) [of "example_core d"], of h]
    by simp
  have v4: "valid_params (example_core d) example_params"
    using example_valid [where q = None and n = None and d = d]
    by (simp add: or_default_def example_params_updates)
  have p: "pass example_params = Str ''password''"
    by (simp add: example_params_def doc_example_params_def)
  note r4 = example_returns_default [of d h]
  from verify_own_hash [OF r4, of h']
  have r5: "fst (argon2Verify (spec_module (example_core d)) h'
                  \<lparr>vpass = Str ''password'', vencoded = Str (spec_encoded (example_core d) example_params),
                   vtype = None\<rparr>)
             = Returned VerifyUndefined"
    unfolding p .
  from r4 r5
  have "\<exists>dg hx e. fst (argon2Hash (spec_module (example_core d)) h example_params)
                    = Returned (HashResult dg hx e)
         \<and> fst (argon2Verify (spec_module (example_core d)) h'
                  \<lparr>vpass = Str ''password'', vencoded = Str e, vtype = None\<rparr>)
             = Returned VerifyUndefined"
    by blast
  with v1 r1 v2 r2 example_long_digest(1) [of d] r3 v4 show ?thesis by blast
qed







text \<open>
  C4. The claim: verify with a password that differs from the original in a single byte
  throws a VerificationMismatch, which a caller can tell from a ParseError. The wrapper
  passes \<^verbatim>\<open>params.pass.length\<close>, the number of code units of the string, as the number of
  bytes of the marshalled password (lines 61 and 128), so the module reads only that many
  bytes of its UTF-8 form. The theorem evaluates the code on the two-character passwords
  \<open>[CHR 0xE9, CHR ''a'']\<close> and \<open>[CHR 0xE9, CHR ''b'']\<close> (the first character has two bytes in
  UTF-8, so the module reads these two bytes and not the third, in which the passwords
  differ), with the type Argon2i: the hash of the first verifies under the second, under
  every digest function; for the digest function of the examples the values are given.
  Where the digests differ, verify throws the mismatch, with a code other than that of a
  ParseError (\<open>verify_other_password\<close>).
\<close>

theorem password_bytes_beyond_length_ignored:
  "(\<exists>dg hx e. fst (argon2Hash (spec_module (example_core d)) h
                      (example_params\<lparr>pass := Str [CHR 0xE9, CHR ''a'']\<rparr>))
                = Returned (HashResult dg hx e)
      \<and> fst (argon2Verify (spec_module (example_core d)) h'
               \<lparr>vpass = Str [CHR 0xE9, CHR ''b''], vencoded = Str e, vtype = None\<rparr>)
          = Returned VerifyUndefined)
   \<and> fst (argon2Hash (spec_module example_impl) example_heap
          (example_params\<lparr>pass := Str [CHR 0xE9, CHR ''a'']\<rparr>))
     = Returned (HashResult
         [239, 240, 241, 242, 243, 244, 245, 246, 247, 248, 249, 250, 251, 252, 253, 254, 255,
          0, 1, 2, 3, 4, 5, 6]
         ''eff0f1f2f3f4f5f6f7f8f9fafbfcfdfeff00010203040506''
         ''$argon2i$v=19$m=1024,t=1,p=1$c29tZXNhbHQ$7/Dx8vP09fb3+Pn6+/z9/v8AAQIDBAUG'')
   \<and> fst (argon2Verify (spec_module example_impl) example_heap
           \<lparr>vpass = Str [CHR 0xE9, CHR ''b''],
            vencoded = Str ''$argon2i$v=19$m=1024,t=1,p=1$c29tZXNhbHQ$7/Dx8vP09fb3+Pn6+/z9/v8AAQIDBAUG'',
            vtype = None\<rparr>)
       = Returned VerifyUndefined"
proof -
  let ?p = "example_params\<lparr>pass := Str [CHR 0xE9, CHR ''a'']\<rparr>"
  have v: "valid_params (example_core f) ?p" for f
    by (simp add: valid_params_def example_params_def doc_example_params_def example_core_def
        Let_def or_default_def Argon2d_def Argon2i_def)
  have x: "explicit_type ?p" by (simp add: explicit_type_def example_params_def Argon2i_def)
  have fit: "length (spec_encoded I ?p) < 512" for I
  proof -
    have "length (spec_encoded I ?p) = length (spec_encoded I example_params)"
      unfolding spec_encoded_def length_encode_string
      by (simp add: length_spec_digest spec_variant_def)
    moreover have "length (spec_encoded I example_params) < 512"
      using example_fits [where q = None and n = None and I = I]
      by (simp add: or_default_def example_params_updates)
    ultimately show ?thesis by simp
  qed
  have same: "spec_digest I (?p\<lparr>pass := Str [CHR 0xE9, CHR ''b'']\<rparr>) = spec_digest I ?p" for I
    using two_byte_password_digest [where I = I and params = example_params and c = "CHR ''b''"
        and c' = "CHR ''a''"] by simp
  have r: "fst (argon2Hash (spec_module (example_core f)) g ?p)
           = Returned (HashResult (spec_digest (example_core f) ?p)
                        (hex_of_bytes (spec_digest (example_core f) ?p))
                        (spec_encoded (example_core f) ?p))" for f g
    by (rule spec_hash_returns [OF v x fit])
  have w: "fst (argon2Verify (spec_module (example_core f)) g'
                 \<lparr>vpass = Str [CHR 0xE9, CHR ''b''], vencoded = Str (spec_encoded (example_core f) ?p),
                  vtype = None\<rparr>)
           = Returned VerifyUndefined" for f g'
    using verify_other_password [OF r [of f example_heap], of g' "Str [CHR 0xE9, CHR ''b'']"] same
    by simp
  have 1: "\<exists>dg hx e. fst (argon2Hash (spec_module (example_core d)) h ?p)
                = Returned (HashResult dg hx e)
      \<and> fst (argon2Verify (spec_module (example_core d)) h'
               \<lparr>vpass = Str [CHR 0xE9, CHR ''b''], vencoded = Str e, vtype = None\<rparr>)
          = Returned VerifyUndefined"
    using r [of d h] w [of d h'] by blast
  have e: "spec_encoded example_impl ?p
           = ''$argon2i$v=19$m=1024,t=1,p=1$c29tZXNhbHQ$7/Dx8vP09fb3+Pn6+/z9/v8AAQIDBAUG''"
    by code_simp
  have dv: "spec_digest example_impl ?p
           = [239, 240, 241, 242, 243, 244, 245, 246, 247, 248, 249, 250, 251, 252, 253, 254, 255,
              0, 1, 2, 3, 4, 5, 6]"
    by code_simp
  have hv: "hex_of_bytes [239, 240, 241, 242, 243, 244, 245, 246, 247, 248, 249, 250, 251, 252,
              253, 254, 255, 0, 1, 2, 3, 4, 5, 6 :: byte]
           = ''eff0f1f2f3f4f5f6f7f8f9fafbfcfdfeff00010203040506''"
    by code_simp
  have 2: "fst (argon2Hash (spec_module example_impl) example_heap ?p)
     = Returned (HashResult
         [239, 240, 241, 242, 243, 244, 245, 246, 247, 248, 249, 250, 251, 252, 253, 254, 255,
          0, 1, 2, 3, 4, 5, 6]
         ''eff0f1f2f3f4f5f6f7f8f9fafbfcfdfeff00010203040506''
         ''$argon2i$v=19$m=1024,t=1,p=1$c29tZXNhbHQ$7/Dx8vP09fb3+Pn6+/z9/v8AAQIDBAUG'')"
  proof -
    have "fst (argon2Hash (spec_module example_impl) example_heap ?p)
           = Returned (HashResult (spec_digest example_impl ?p)
                        (hex_of_bytes (spec_digest example_impl ?p))
                        (spec_encoded example_impl ?p))"
      unfolding example_impl_def by (rule r)
    then show ?thesis unfolding dv hv e .
  qed
  have 3: "fst (argon2Verify (spec_module example_impl) example_heap
           \<lparr>vpass = Str [CHR 0xE9, CHR ''b''],
            vencoded = Str ''$argon2i$v=19$m=1024,t=1,p=1$c29tZXNhbHQ$7/Dx8vP09fb3+Pn6+/z9/v8AAQIDBAUG'',
            vtype = None\<rparr>)
       = Returned VerifyUndefined"
    using verify_other_password [OF 2, of example_heap "Str [CHR 0xE9, CHR ''b'']"] same
    by simp
  show ?thesis by (rule conjI 1 2 3)+
qed

end
